theory Spec2Isabelle
  imports Main
begin

section \<open>The argument-rewriting engine of \<^verbatim>\<open>keyway docker\<close>\<close>

text \<open>
  A shallow embedding of \<^verbatim>\<open>internal/cmd/docker.go\<close>: the image locator
  \<^verbatim>\<open>findImagePosition\<close>, the override extractor \<^verbatim>\<open>extractUserEnvVars\<close> and
  the two builders \<^verbatim>\<open>runDockerRun\<close> and \<^verbatim>\<open>runDockerCompose\<close>.

  Go strings are byte sequences and are modelled as \<^typ>\<open>string\<close>. An index or a slice
  expression out of range is a run-time panic in Go; every such expression of the source
  is modelled by a checked operation, so a panic is a value of the model.
\<close>

subsection \<open>Go run-time checks\<close>

datatype panic = IndexOutOfRange | SliceOutOfRange

text \<open>\<^verbatim>\<open>xs[i]\<close>\<close>

definition index :: "'a list \<Rightarrow> nat \<Rightarrow> panic + 'a" where
  "index xs i = (if i < length xs then Inr (xs ! i) else Inl IndexOutOfRange)"

text \<open>\<^verbatim>\<open>xs[:n]\<close> and \<^verbatim>\<open>xs[n:]\<close>\<close>

definition sliceTo :: "'a list \<Rightarrow> nat \<Rightarrow> panic + 'a list" where
  "sliceTo xs n = (if n \<le> length xs then Inr (take n xs) else Inl SliceOutOfRange)"

definition sliceFrom :: "'a list \<Rightarrow> nat \<Rightarrow> panic + 'a list" where
  "sliceFrom xs n = (if n \<le> length xs then Inr (drop n xs) else Inl SliceOutOfRange)"

subsection \<open>The functions of package \<^verbatim>\<open>strings\<close> the engine calls\<close>

definition HasPrefix :: "string \<Rightarrow> string \<Rightarrow> bool" where
  "HasPrefix s pre = (length pre \<le> length s \<and> take (length pre) s = pre)"

definition TrimPrefix :: "string \<Rightarrow> string \<Rightarrow> string" where
  "TrimPrefix s pre = (if HasPrefix s pre then drop (length pre) s else s)"

text \<open>\<^verbatim>\<open>strings.Contains(s, substr)\<close>: \<^verbatim>\<open>substr\<close> occurs at some offset of \<^verbatim>\<open>s\<close>.\<close>

definition Contains :: "string \<Rightarrow> string \<Rightarrow> bool" where
  "Contains s substr = list_ex (\<lambda>i. HasPrefix (drop i s) substr) [0..<Suc (length s)]"

text \<open>
  \<^verbatim>\<open>strings.SplitN(s, "=", 2)\<close>: the string itself when it has no \<^verbatim>\<open>=\<close>, else the
  part before the first \<^verbatim>\<open>=\<close> and the whole remainder after it.
\<close>

definition SplitN2 :: "string \<Rightarrow> string list" where
  "SplitN2 s =
     (if Contains s ''=''
      then [takeWhile (\<lambda>c. c \<noteq> CHR ''='') s, tl (dropWhile (\<lambda>c. c \<noteq> CHR ''='') s)]
      else [s])"

subsection \<open>The flag arity table\<close>

text \<open>
  The keys of the map literal \<^verbatim>\<open>flagsWithValue\<close> of \<^verbatim>\<open>findImagePosition\<close>; every
  key is mapped to \<^verbatim>\<open>true\<close>, and a lookup of any other string gives \<^verbatim>\<open>false\<close>.
\<close>

definition flagsWithValue_keys :: "string list" where
  "flagsWithValue_keys =
    [''-a'', ''--attach'',
     ''--add-host'',
     ''--blkio-weight'',
     ''--blkio-weight-device'',
     ''--cap-add'',
     ''--cap-drop'',
     ''--cgroup-parent'',
     ''--cgroupns'',
     ''--cidfile'',
     ''--cpu-count'',
     ''--cpu-percent'',
     ''--cpu-period'',
     ''--cpu-quota'',
     ''--cpu-rt-period'',
     ''--cpu-rt-runtime'',
     ''--cpu-shares'', ''-c'',
     ''--cpus'',
     ''--cpuset-cpus'',
     ''--cpuset-mems'',
     ''--device'',
     ''--device-cgroup-rule'',
     ''--device-read-bps'',
     ''--device-read-iops'',
     ''--device-write-bps'',
     ''--device-write-iops'',
     ''--dns'',
     ''--dns-option'',
     ''--dns-search'',
     ''--domainname'',
     ''--entrypoint'',
     ''-e'', ''--env'',
     ''--env-file'',
     ''--expose'',
     ''--gpus'',
     ''--group-add'',
     ''--health-cmd'',
     ''--health-interval'',
     ''--health-retries'',
     ''--health-start-period'',
     ''--health-timeout'',
     ''-h'', ''--hostname'',
     ''--ip'',
     ''--ip6'',
     ''--ipc'',
     ''--isolation'',
     ''--kernel-memory'',
     ''-l'', ''--label'',
     ''--label-file'',
     ''--link'',
     ''--link-local-ip'',
     ''--log-driver'',
     ''--log-opt'',
     ''--mac-address'',
     ''-m'', ''--memory'',
     ''--memory-reservation'',
     ''--memory-swap'',
     ''--memory-swappiness'',
     ''--mount'',
     ''--name'',
     ''--network'', ''--net'',
     ''--network-alias'', ''--net-alias'',
     ''--oom-score-adj'',
     ''--pid'',
     ''--pids-limit'',
     ''--platform'',
     ''-p'', ''--publish'',
     ''--pull'',
     ''--restart'',
     ''--runtime'',
     ''--security-opt'',
     ''--shm-size'',
     ''--stop-signal'',
     ''--stop-timeout'',
     ''--storage-opt'',
     ''--sysctl'',
     ''--tmpfs'',
     ''--ulimit'',
     ''-u'', ''--user'',
     ''--userns'',
     ''--uts'',
     ''-v'', ''--volume'',
     ''--volume-driver'',
     ''--volumes-from'',
     ''-w'', ''--workdir'']"

definition flagsWithValue :: "string \<Rightarrow> bool" where
  "flagsWithValue arg = List.member flagsWithValue_keys arg"

subsection \<open>\<^verbatim>\<open>findImagePosition\<close>\<close>

text \<open>
  The loop of \<^verbatim>\<open>findImagePosition\<close> from cursor \<open>i\<close>; the result is the Go \<^verbatim>\<open>int\<close>
  returned, \<open>- 1\<close> when no image is found.
\<close>

function findImagePosition_loop :: "string list \<Rightarrow> nat \<Rightarrow> panic + int" where
  "findImagePosition_loop args i =
     (if i < length args then
        (case index args i of
           Inl p \<Rightarrow> Inl p
         | Inr arg \<Rightarrow>
             if \<not> HasPrefix arg ''-'' then Inr (int i)
             else if Contains arg ''='' then findImagePosition_loop args (i + 1)
             else if flagsWithValue arg then findImagePosition_loop args (i + 2)
             else findImagePosition_loop args (i + 1))
      else Inr (- 1))"
  by pat_completeness auto
termination
  by (relation "measure (\<lambda>(args, i). length args - i)") auto

declare findImagePosition_loop.simps [simp del]

definition findImagePosition :: "string list \<Rightarrow> panic + int" where
  "findImagePosition args = findImagePosition_loop args 0"

subsection \<open>\<^verbatim>\<open>extractUserEnvVars\<close>\<close>

text \<open>
  Lines 371 to 381: what one recovered \<^verbatim>\<open>envVal\<close> does to the \<^verbatim>\<open>result\<close> map.
\<close>

definition storeEnvVal :: "string \<Rightarrow> (string \<rightharpoonup> string) \<Rightarrow> panic + (string \<rightharpoonup> string)" where
  "storeEnvVal envVal result =
     (if envVal \<noteq> '''' then
        (let parts = SplitN2 envVal in
         if length parts \<ge> 1 then
           (case index parts 0 of
              Inl p \<Rightarrow> Inl p
            | Inr key \<Rightarrow>
                if length parts = 2 then
                  (case index parts 1 of
                     Inl p \<Rightarrow> Inl p
                   | Inr v \<Rightarrow> Inr (result(key \<mapsto> v)))
                else Inr (result(key \<mapsto> '''')))
         else Inr result)
      else Inr result)"

text \<open>
  The \<^verbatim>\<open>for\<close> loop of \<^verbatim>\<open>extractUserEnvVars\<close> from cursor \<open>i\<close>. The space form
  increments the cursor once more when a next token exists; with no next token
  \<^verbatim>\<open>envVal\<close> stays empty.
\<close>

function extractUserEnvVars_loop ::
  "string list \<Rightarrow> nat \<Rightarrow> (string \<rightharpoonup> string) \<Rightarrow> panic + (string \<rightharpoonup> string)" where
  "extractUserEnvVars_loop args i result =
     (if i < length args then
        (case index args i of
           Inl p \<Rightarrow> Inl p
         | Inr arg \<Rightarrow>
             if arg = ''-e'' \<or> arg = ''--env'' then
               (if i + 1 < length args then
                  (case index args (i + 1) of
                     Inl p \<Rightarrow> Inl p
                   | Inr envVal \<Rightarrow>
                       (case storeEnvVal envVal result of
                          Inl p \<Rightarrow> Inl p
                        | Inr result' \<Rightarrow> extractUserEnvVars_loop args (i + 2) result'))
                else
                  (case storeEnvVal '''' result of
                     Inl p \<Rightarrow> Inl p
                   | Inr result' \<Rightarrow> extractUserEnvVars_loop args (i + 1) result'))
             else if HasPrefix arg ''-e='' then
               (case storeEnvVal (TrimPrefix arg ''-e='') result of
                  Inl p \<Rightarrow> Inl p
                | Inr result' \<Rightarrow> extractUserEnvVars_loop args (i + 1) result')
             else if HasPrefix arg ''--env='' then
               (case storeEnvVal (TrimPrefix arg ''--env='') result of
                  Inl p \<Rightarrow> Inl p
                | Inr result' \<Rightarrow> extractUserEnvVars_loop args (i + 1) result')
             else extractUserEnvVars_loop args (i + 1) result)
      else Inr result)"
  by pat_completeness auto
termination
  by (relation "measure (\<lambda>(args, i, result). length args - i)") auto

declare extractUserEnvVars_loop.simps [simp del]

definition extractUserEnvVars :: "string list \<Rightarrow> panic + (string \<rightharpoonup> string)" where
  "extractUserEnvVars args = extractUserEnvVars_loop args 0 Map.empty"

subsection \<open>Secrets, errors and the outside world\<close>

text \<open>
  A Go \<^verbatim>\<open>map[string]string\<close> that the code only ranges over (\<^verbatim>\<open>secrets\<close>) is the list
  of its entries in the order this \<^verbatim>\<open>range\<close> visits them: Go leaves the order
  unspecified, so every theorem holds for every order. The keys of a map are distinct;
  a theorem that needs it assumes \<open>distinct (map fst secrets)\<close>.
  \<^verbatim>\<open>len(secrets) > 0\<close> is \<open>secrets \<noteq> []\<close>.
\<close>

type_synonym secretSet = "(string \<times> string) list"

text \<open>
  A Go \<^verbatim>\<open>error\<close>: a plain failure with its message, or an error wrapped by
  \<^verbatim>\<open>fmt.Errorf("<prefix>%w", err)\<close>.
\<close>

datatype error = Failure string | Wrapped string error

text \<open>\<^verbatim>\<open>err.Error()\<close> and \<^verbatim>\<open>errors.Unwrap(err)\<close>\<close>

fun Error :: "error \<Rightarrow> string" where
  "Error (Failure msg) = msg"
| "Error (Wrapped pre err) = pre @ Error err"

fun Unwrap :: "error \<Rightarrow> error option" where
  "Unwrap (Failure msg) = None"
| "Unwrap (Wrapped pre err) = Some err"

record DockerOptions =
  EnvName :: string
  EnvFlagSet :: bool
  DockerCommand :: string
  DockerArgs :: "string list"

text \<open>
  One call of the process runner: the executable, the argument vector, the
  environment-override map (\<open>None\<close> is Go's \<^verbatim>\<open>nil\<close>) and the files that exist when the
  process starts.
\<close>

record invocation =
  command :: string
  argv :: "string list"
  environ :: "(string \<rightharpoonup> string) option"
  filesAtStart :: "string \<rightharpoonup> string"

text \<open>The world: the files (path to content) and the processes started so far.\<close>

record world =
  files :: "string \<rightharpoonup> string"
  started :: "invocation list"

text \<open>
  The collaborators. \<open>CmdRunner\<close> is what \<^verbatim>\<open>deps.CmdRunner.RunCommand\<close> returns for a
  call (\<open>None\<close> is a \<^verbatim>\<open>nil\<close> error). \<open>CreateTemp\<close> is the outcome of
  \<^verbatim>\<open>os.CreateTemp("", "keyway-env-*.env")\<close>: an error, or the name of the new, empty
  file. \<open>Write\<close> is the outcome of one write to that file: from its content and the
  bytes to append, the new content and the error reported.
\<close>

record Dependencies =
  CmdRunner :: "string \<Rightarrow> string list \<Rightarrow> (string \<rightharpoonup> string) option \<Rightarrow> error option"

record OS =
  CreateTemp :: "error + string"
  Write :: "string \<Rightarrow> string \<Rightarrow> string \<times> error option"

definition RunCommand ::
  "Dependencies \<Rightarrow> string \<Rightarrow> string list \<Rightarrow> (string \<rightharpoonup> string) option \<Rightarrow> world
     \<Rightarrow> error option \<times> world" where
  "RunCommand deps name args secrets w =
     (CmdRunner deps name args secrets,
      w\<lparr>started := started w @
         [\<lparr>command = name, argv = args, environ = secrets, filesAtStart = files w\<rparr>]\<rparr>)"

subsection \<open>\<^verbatim>\<open>runDockerRun\<close>\<close>

text \<open>
  The loop of lines 166 to 170 (and 176 to 180): every secret the user did not set is
  appended to \<^verbatim>\<open>newArgs\<close> as \<^verbatim>\<open>-e\<close>, \<^verbatim>\<open>KEY=VALUE\<close>.
\<close>

fun injectSecrets :: "(string \<rightharpoonup> string) \<Rightarrow> secretSet \<Rightarrow> string list \<Rightarrow> string list" where
  "injectSecrets userEnvVars [] newArgs = newArgs"
| "injectSecrets userEnvVars ((k, v) # secrets) newArgs =
     injectSecrets userEnvVars secrets
       (if userEnvVars k = None then newArgs @ [''-e'', k @ ''='' @ v] else newArgs)"

definition runDockerRun ::
  "DockerOptions \<Rightarrow> secretSet \<Rightarrow> Dependencies \<Rightarrow> world \<Rightarrow> panic + (error option \<times> world)" where
  "runDockerRun opts secrets deps w =
     (let args = DockerArgs opts in
      case extractUserEnvVars args of
        Inl p \<Rightarrow> Inl p
      | Inr userEnvVars \<Rightarrow>
          (case findImagePosition args of
             Inl p \<Rightarrow> Inl p
           | Inr imagePos \<Rightarrow>
               let newArgs = [DockerCommand opts] in
               if imagePos \<ge> 0 then
                 (case sliceTo args (nat imagePos) of
                    Inl p \<Rightarrow> Inl p
                  | Inr before \<Rightarrow>
                      let newArgs = injectSecrets userEnvVars secrets (newArgs @ before) in
                      (case sliceFrom args (nat imagePos) of
                         Inl p \<Rightarrow> Inl p
                       | Inr rest \<Rightarrow> Inr (RunCommand deps ''docker'' (newArgs @ rest) None w)))
               else
                 (let newArgs = injectSecrets userEnvVars secrets newArgs in
                  Inr (RunCommand deps ''docker'' (newArgs @ args) None w))))"

subsection \<open>\<^verbatim>\<open>runDockerCompose\<close>\<close>

text \<open>The loop of lines 198 to 200: every secret, unfiltered.\<close>

fun injectAll :: "secretSet \<Rightarrow> string list \<Rightarrow> string list" where
  "injectAll [] newArgs = newArgs"
| "injectAll ((k, v) # secrets) newArgs = injectAll secrets (newArgs @ [''-e'', k @ ''='' @ v])"

text \<open>
  The loop of lines 216 to 218 on the content of the env file:
  \<^verbatim>\<open>fmt.Fprintf(envFile, "%s=%s\n", k, v)\<close>, whose results (byte count and error) the
  source discards.
\<close>

fun writeSecrets :: "OS \<Rightarrow> secretSet \<Rightarrow> string \<Rightarrow> string" where
  "writeSecrets os [] content = content"
| "writeSecrets os ((k, v) # secrets) content =
     writeSecrets os secrets (fst (Write os content (k @ ''='' @ v @ [CHR 0x0A])))"

text \<open>
  \<^verbatim>\<open>envFile.Close()\<close> leaves the content as written; the deferred \<^verbatim>\<open>os.Remove\<close> runs
  when the function returns, after the runner has returned, and its result is discarded
  too: the model takes the removal to succeed.
\<close>

definition runDockerCompose ::
  "DockerOptions \<Rightarrow> secretSet \<Rightarrow> Dependencies \<Rightarrow> OS \<Rightarrow> world \<Rightarrow> panic + (error option \<times> world)" where
  "runDockerCompose opts secrets deps os w =
     (let args = [''compose''] @ DockerArgs opts in
      case (if length (DockerArgs opts) > 0
            then (case index (DockerArgs opts) 0 of Inl p \<Rightarrow> Inl p | Inr a \<Rightarrow> Inr (a = ''run''))
            else Inr False) of
        Inl p \<Rightarrow> Inl p
      | Inr isRun \<Rightarrow>
          if isRun then
            (let newArgs = injectAll secrets [''compose'', ''run''] in
             if length (DockerArgs opts) > 1 then
               (case sliceFrom (DockerArgs opts) 1 of
                  Inl p \<Rightarrow> Inl p
                | Inr rest \<Rightarrow> Inr (RunCommand deps ''docker'' (newArgs @ rest) None w))
             else Inr (RunCommand deps ''docker'' newArgs None w))
          else if length secrets > 0 then
            (case CreateTemp os of
               Inl err \<Rightarrow> Inr (Some (Wrapped ''failed to create temp env file: '' err), w)
             | Inr name \<Rightarrow>
                 let w1 = w\<lparr>files := (files w)(name \<mapsto> '''')\<rparr>;
                     w2 = w1\<lparr>files := (files w1)(name \<mapsto> writeSecrets os secrets '''')\<rparr>;
                     args = [''compose'', ''--env-file'', name] @ DockerArgs opts;
                     (r, w3) = RunCommand deps ''docker'' args None w2
                 in Inr (r, w3\<lparr>files := (files w3)(name := None)\<rparr>))
          else Inr (RunCommand deps ''docker'' args None w))"

subsection \<open>Notions the properties are stated with\<close>

text \<open>
  A position found after skipping \<open>n\<close> tokens: \<open>- 1\<close> stays \<open>- 1\<close>, a position moves
  right by \<open>n\<close>.
\<close>

definition shifted :: "nat \<Rightarrow> panic + int \<Rightarrow> panic + int" where
  "shifted n r =
     (case r of Inl p \<Rightarrow> Inl p | Inr pos \<Rightarrow> Inr (if pos < 0 then - 1 else pos + int n))"

text \<open>
  One option of a \<^verbatim>\<open>docker run\<close> command line as the locator reads it: a flag on its
  own (inline \<^verbatim>\<open>--flag=value\<close>, or not in the arity table), or a value-consuming flag
  with the token after it.
\<close>

definition optionGroup :: "string list \<Rightarrow> bool" where
  "optionGroup g =
     (case g of
        [f] \<Rightarrow> HasPrefix f ''-'' \<and> (Contains f ''='' \<or> \<not> flagsWithValue f)
      | [f, v] \<Rightarrow> HasPrefix f ''-'' \<and> \<not> Contains f ''='' \<and> flagsWithValue f
      | _ \<Rightarrow> False)"

text \<open>The \<^verbatim>\<open>-e\<close>, \<^verbatim>\<open>KEY=VALUE\<close> tokens of a list of entries, in order.\<close>

definition envFlags :: "secretSet \<Rightarrow> string list" where
  "envFlags kvs = concat (map (\<lambda>(k, v). [''-e'', k @ ''='' @ v]) kvs)"

text \<open>The \<^verbatim>\<open>KEY=VALUE\<close> lines of a list of entries, each ended by a newline.\<close>

definition envLines :: "secretSet \<Rightarrow> string" where
  "envLines kvs = concat (map (\<lambda>(k, v). k @ ''='' @ v @ [CHR 0x0A]) kvs)"

text \<open>
  How often the adjacent pair \<^verbatim>\<open>-e\<close>, \<open>payload\<close> occurs in an argument vector.
\<close>

fun countEnvFlag :: "string \<Rightarrow> string list \<Rightarrow> nat" where
  "countEnvFlag payload (a # b # rest) =
     (if a = ''-e'' \<and> b = payload then 1 else 0) + countEnvFlag payload (b # rest)"
| "countEnvFlag payload rest = 0"

text \<open>
  The entry one recovered payload \<^verbatim>\<open>KEY[=VALUE]\<close> denotes: none for the empty payload,
  else the key before the first \<^verbatim>\<open>=\<close> with the rest as value, or the whole payload with
  the empty value when it has no \<^verbatim>\<open>=\<close>.
\<close>

definition envEntry :: "string \<Rightarrow> (string \<rightharpoonup> string)" where
  "envEntry payload =
     (if payload = '''' then Map.empty
      else if Contains payload ''=''
      then [takeWhile (\<lambda>c. c \<noteq> CHR ''='') payload \<mapsto> tl (dropWhile (\<lambda>c. c \<noteq> CHR ''='') payload)]
      else [payload \<mapsto> ''''])"

subsection \<open>Collaborators of the examples\<close>

text \<open>
  A runner whose command succeeds, and a world with no file and no process started.
\<close>

definition runnerOk :: Dependencies where
  "runnerOk = \<lparr>CmdRunner = (\<lambda>name args secrets. None)\<rparr>"

definition emptyWorld :: world where
  "emptyWorld = \<lparr>files = Map.empty, started = []\<rparr>"

text \<open>
  Three file systems: one where the temporary file is created under \<open>name\<close> and every
  write appends its bytes; one where the file is created but every write fails and
  leaves the content as it was; one where \<^verbatim>\<open>os.CreateTemp\<close> itself fails.
\<close>

definition diskOk :: "string \<Rightarrow> OS" where
  "diskOk name = \<lparr>CreateTemp = Inr name, Write = (\<lambda>content bytes. (content @ bytes, None))\<rparr>"

definition diskFull :: "string \<Rightarrow> OS" where
  "diskFull name =
     \<lparr>CreateTemp = Inr name,
      Write = (\<lambda>content bytes. (content, Some (Failure ''no space left on device'')))\<rparr>"

definition noTempDir :: OS where
  "noTempDir =
     \<lparr>CreateTemp = Inl (Failure ''permission denied''),
      Write = (\<lambda>content bytes. (content @ bytes, None))\<rparr>"

section \<open>Library facts\<close>

lemma index_in_range: "i < length xs \<Longrightarrow> index xs i = Inr (xs ! i)"
  by (simp add: index_def)

lemma HasPrefix_single: "HasPrefix s [c] = (s \<noteq> [] \<and> hd s = c)"
  by (cases s) (auto simp: HasPrefix_def)

lemma Contains_single: "Contains s [c] = (c \<in> set s)"
proof -
  have "Contains s [c] = (\<exists>i<Suc (length s). HasPrefix (drop i s) [c])"
    by (simp only: Contains_def list_ex_iff set_upt atLeastLessThan_iff Bex_def) auto
  also have "\<dots> = (\<exists>i<length s. s ! i = c)"
    by (auto simp: HasPrefix_single hd_drop_conv_nth less_Suc_eq)
  also have "\<dots> = (c \<in> set s)"
    by (auto simp: in_set_conv_nth)
  finally show ?thesis .
qed

lemmas token_evals =
  eval_nat_numeral HasPrefix_def Contains_single flagsWithValue_def flagsWithValue_keys_def
  shifted_def

section \<open>The image locator\<close>

subsection \<open>One step of the cursor\<close>

lemma loop_end: "length args \<le> i \<Longrightarrow> findImagePosition_loop args i = Inr (- 1)"
  by (simp add: findImagePosition_loop.simps)

lemma loop_image:
  "i < length args \<Longrightarrow> \<not> HasPrefix (args ! i) ''-'' \<Longrightarrow>
   findImagePosition_loop args i = Inr (int i)"
  by (simp add: findImagePosition_loop.simps [of args i] index_def)

lemma loop_inline:
  "i < length args \<Longrightarrow> HasPrefix (args ! i) ''-'' \<Longrightarrow> Contains (args ! i) ''='' \<Longrightarrow>
   findImagePosition_loop args i = findImagePosition_loop args (i + 1)"
  by (subst findImagePosition_loop.simps) (simp add: index_def)

lemma loop_value:
  "i < length args \<Longrightarrow> HasPrefix (args ! i) ''-'' \<Longrightarrow> \<not> Contains (args ! i) ''='' \<Longrightarrow>
   flagsWithValue (args ! i) \<Longrightarrow>
   findImagePosition_loop args i = findImagePosition_loop args (i + 2)"
  by (subst findImagePosition_loop.simps) (simp add: index_def)

lemma loop_bool:
  "i < length args \<Longrightarrow> HasPrefix (args ! i) ''-'' \<Longrightarrow> \<not> Contains (args ! i) ''='' \<Longrightarrow>
   \<not> flagsWithValue (args ! i) \<Longrightarrow>
   findImagePosition_loop args i = findImagePosition_loop args (i + 1)"
  by (subst findImagePosition_loop.simps) (simp add: index_def)

subsection \<open>The tokens before the cursor do not matter\<close>

lemma loop_append:
  "findImagePosition_loop (pre @ xs) (length pre + i) =
   shifted (length pre) (findImagePosition_loop xs i)"
proof (induction xs i rule: findImagePosition_loop.induct)
  case (1 args i)
  show ?case
  proof (cases "i < length args")
    case False
    then show ?thesis
      by (simp add: loop_end shifted_def)
  next
    case True
    then have ix: "index args i = Inr (args ! i)"
      "index (pre @ args) (length pre + i) = Inr (args ! i)"
      by (simp_all add: index_def nth_append)
    show ?thesis
      using True 1 [OF True ix(1)]
      by (subst findImagePosition_loop.simps [of "pre @ args"],
          subst findImagePosition_loop.simps [of args])
         (simp add: ix shifted_def add.assoc)
  qed
qed

lemma fip_skip_two:
  "findImagePosition_loop (t # v # ts) (Suc (Suc 0)) = shifted 2 (findImagePosition ts)"
  using loop_append [of "[t, v]" ts 0] by (simp add: findImagePosition_def numeral_2_eq_2)

lemma fip_pair:
  assumes "HasPrefix t ''-''" "\<not> Contains t ''=''" "flagsWithValue t"
  shows "findImagePosition (t # v # ts) = shifted 2 (findImagePosition ts)"
  using assms loop_value [of 0 "t # v # ts"] by (simp add: findImagePosition_def fip_skip_two)

lemma loop_all_flags:
  "\<forall>t\<in>set args. HasPrefix t ''-'' \<Longrightarrow> findImagePosition_loop args i = Inr (- 1)"
proof (induction args i rule: findImagePosition_loop.induct)
  case (1 args i)
  show ?case
  proof (cases "i < length args")
    case False
    then show ?thesis by (simp add: loop_end)
  next
    case True
    then have ix: "index args i = Inr (args ! i)" and fl: "HasPrefix (args ! i) ''-''"
      using 1(4) by (simp_all add: index_def)
    show ?thesis
      using True fl 1(1-3) [OF True ix] 1(4)
      by (subst findImagePosition_loop.simps) (simp add: ix)
  qed
qed

lemma loop_range:
  "\<exists>p. findImagePosition_loop args i = Inr p \<and>
       (p = - 1 \<or> (int i \<le> p \<and> p < int (length args)))"
proof (induction args i rule: findImagePosition_loop.induct)
  case (1 args i)
  show ?case
  proof (cases "i < length args")
    case False
    then show ?thesis by (simp add: loop_end)
  next
    case True
    then have ix: "index args i = Inr (args ! i)"
      by (simp add: index_def)
    note ih = 1 [OF True ix]
    consider (img) "\<not> HasPrefix (args ! i) ''-''"
      | (inl) "HasPrefix (args ! i) ''-''" "Contains (args ! i) ''=''"
      | (val) "HasPrefix (args ! i) ''-''" "\<not> Contains (args ! i) ''=''"
          "flagsWithValue (args ! i)"
      | (boo) "HasPrefix (args ! i) ''-''" "\<not> Contains (args ! i) ''=''"
          "\<not> flagsWithValue (args ! i)"
      by blast
    then show ?thesis
    proof cases
      case img
      then show ?thesis using True by (simp add: loop_image)
    next
      case inl
      then show ?thesis using True ih(1) by (auto simp: loop_inline)
    next
      case val
      then show ?thesis using True ih(2) by (auto simp: loop_value)
    next
      case boo
      then show ?thesis using True ih(3) by (auto simp: loop_bool)
    qed
  qed
qed

text \<open>
  C3. \<^verbatim>\<open>findImagePosition\<close> starts its cursor at index 0. With the cursor at \<open>i\<close>: past
  the end it returns \<open>- 1\<close>; at a token that does not start with \<^verbatim>\<open>-\<close> it returns \<open>i\<close>;
  past a flag containing \<^verbatim>\<open>=\<close> it moves to \<open>i + 1\<close>; past a flag of the arity table
  (spelled exactly, no \<^verbatim>\<open>=\<close>) it moves to \<open>i + 2\<close>; past any other flag it moves to
  \<open>i + 1\<close>. So a value-consuming flag and the token after it are skipped as a pair
  whatever that token is, and the locator gives for the whole sequence what it gives for
  the rest, moved by two. The empty sequence, and every sequence all of whose tokens
  start with \<^verbatim>\<open>-\<close>, give \<open>- 1\<close>.
\<close>

theorem findImagePosition_walk:
  "findImagePosition args = findImagePosition_loop args 0
   \<and> (length args \<le> i \<longrightarrow> findImagePosition_loop args i = Inr (- 1))
   \<and> (i < length args \<and> \<not> HasPrefix (args ! i) ''-'' \<longrightarrow>
        findImagePosition_loop args i = Inr (int i))
   \<and> (i < length args \<and> HasPrefix (args ! i) ''-'' \<and> Contains (args ! i) ''='' \<longrightarrow>
        findImagePosition_loop args i = findImagePosition_loop args (i + 1))
   \<and> (i < length args \<and> HasPrefix (args ! i) ''-'' \<and> \<not> Contains (args ! i) ''=''
        \<and> flagsWithValue (args ! i) \<longrightarrow>
        findImagePosition_loop args i = findImagePosition_loop args (i + 2))
   \<and> (i < length args \<and> HasPrefix (args ! i) ''-'' \<and> \<not> Contains (args ! i) ''=''
        \<and> \<not> flagsWithValue (args ! i) \<longrightarrow>
        findImagePosition_loop args i = findImagePosition_loop args (i + 1))
   \<and> (HasPrefix t ''-'' \<and> \<not> Contains t ''='' \<and> flagsWithValue t \<longrightarrow>
        findImagePosition (t # v # ts) = shifted 2 (findImagePosition ts))
   \<and> findImagePosition [] = Inr (- 1)
   \<and> ((\<forall>a\<in>set args. HasPrefix a ''-'') \<longrightarrow> findImagePosition args = Inr (- 1))"
proof -
  have "findImagePosition [] = Inr (- 1)"
    by (simp add: findImagePosition_def loop_end)
  moreover have "(\<forall>a\<in>set args. HasPrefix a ''-'') \<longrightarrow> findImagePosition args = Inr (- 1)"
    by (simp add: findImagePosition_def loop_all_flags)
  ultimately show ?thesis
    using loop_end [of args i] loop_image [of i args] loop_inline [of i args]
      loop_value [of i args] loop_bool [of i args] fip_pair [of t v ts]
    by (simp add: findImagePosition_def)
qed

theorem findImagePosition_walk_witness:
  "findImagePosition [''-d'', ''--name=web'', ''-p'', ''8080:8080'', ''myapp:latest''] = Inr 4
   \<and> findImagePosition_loop [''-d'', ''--name=web'', ''-p'', ''8080:8080'', ''myapp:latest''] 5 = Inr (- 1)
   \<and> HasPrefix ''-p'' ''-'' \<and> \<not> Contains ''-p'' ''='' \<and> flagsWithValue ''-p''
   \<and> findImagePosition [''-p'', ''-x'', ''img''] = Inr 2
   \<and> HasPrefix ''-d'' ''-'' \<and> HasPrefix ''--rm'' ''-''
   \<and> findImagePosition [''-d'', ''--rm''] = Inr (- 1)"
proof -
  let ?a = "[''-d'', ''--name=web'', ''-p'', ''8080:8080'', ''myapp:latest'']"
  note W = findImagePosition_walk [where t = "''-p''" and v = "''-x''" and ts = "[''img'']"]
  note W0 = W [where args = ?a and i = 0]
  note W1 = W [where args = ?a and i = 1]
  note W2 = W [where args = ?a and i = 2]
  note W4 = W [where args = ?a and i = 4]
  note W5 = W [where args = ?a and i = 5]
  note Wi = W [where args = "[''img'']" and i = 0]
  note Wf = W [where args = "[''-d'', ''--rm'']" and i = 0]
  have s0: "findImagePosition_loop ?a 0 = findImagePosition_loop ?a 1"
    using W0 [THEN conjunct2, THEN conjunct2, THEN conjunct2, THEN conjunct2, THEN conjunct2,
      THEN conjunct1]
    by (simp add: token_evals)
  have s1: "findImagePosition_loop ?a 1 = findImagePosition_loop ?a 2"
    using W1 [THEN conjunct2, THEN conjunct2, THEN conjunct2, THEN conjunct1]
    by (simp add: token_evals)
  have s2: "findImagePosition_loop ?a 2 = findImagePosition_loop ?a 4"
    using W2 [THEN conjunct2, THEN conjunct2, THEN conjunct2, THEN conjunct2, THEN conjunct1]
    by (simp add: token_evals)
  have s4: "findImagePosition_loop ?a 4 = Inr 4"
    using W4 [THEN conjunct2, THEN conjunct2, THEN conjunct1]
    by (simp add: token_evals)
  have s: "findImagePosition ?a = Inr 4"
    using W0 [THEN conjunct1] s0 s1 s2 s4 by (simp add: eval_nat_numeral)
  have s5: "findImagePosition_loop ?a 5 = Inr (- 1)"
    using W5 [THEN conjunct2, THEN conjunct1] by simp
  have img: "findImagePosition [''img''] = Inr 0"
    using Wi [THEN conjunct1] Wi [THEN conjunct2, THEN conjunct2, THEN conjunct1]
    by (simp add: token_evals)
  have p: "findImagePosition [''-p'', ''-x'', ''img''] = Inr 2"
    using Wi [THEN conjunct2, THEN conjunct2, THEN conjunct2, THEN conjunct2, THEN conjunct2,
      THEN conjunct2, THEN conjunct1] img
    by (simp add: token_evals)
  have flags: "findImagePosition [''-d'', ''--rm''] = Inr (- 1)"
    using Wf [THEN conjunct2, THEN conjunct2, THEN conjunct2, THEN conjunct2, THEN conjunct2,
      THEN conjunct2, THEN conjunct2, THEN conjunct2]
    by (simp add: token_evals)
  show ?thesis
    using s s5 p flags by (simp add: token_evals)
qed

subsection \<open>The tokens before the image are a run of options\<close>

lemma optionGroup_single:
  "HasPrefix f ''-'' \<Longrightarrow> Contains f ''='' \<or> \<not> flagsWithValue f \<Longrightarrow> optionGroup [f]"
  by (simp add: optionGroup_def)

lemma optionGroup_pair:
  "HasPrefix f ''-'' \<Longrightarrow> \<not> Contains f ''='' \<Longrightarrow> flagsWithValue f \<Longrightarrow> optionGroup [f, v]"
  by (simp add: optionGroup_def)

lemma take_drop_step:
  assumes "Suc i \<le> p" "p \<le> length args"
  shows "take (p - i) (drop i args) = args ! i # take (p - Suc i) (drop (Suc i) args)"
proof -
  have "i < length args" using assms by simp
  then have "drop i args = args ! i # drop (Suc i) args"
    by (simp add: Cons_nth_drop_Suc)
  moreover have "p - i = Suc (p - Suc i)" using assms by simp
  ultimately show ?thesis by simp
qed

lemma loop_groups:
  "findImagePosition_loop args i = Inr (int p) \<Longrightarrow>
   i \<le> p \<and> p < length args \<and> \<not> HasPrefix (args ! p) ''-'' \<and>
   (\<exists>groups. list_all optionGroup groups \<and> concat groups = take (p - i) (drop i args))"
proof (induction args i rule: findImagePosition_loop.induct)
  case (1 args i)
  show ?case
  proof (cases "i < length args")
    case False
    then show ?thesis using 1(4) by (simp add: loop_end)
  next
    case True
    then have ix: "index args i = Inr (args ! i)"
      by (simp add: index_def)
    note ih = 1(1-3) [OF True ix]
    consider (img) "\<not> HasPrefix (args ! i) ''-''"
      | (inl) "HasPrefix (args ! i) ''-''" "Contains (args ! i) ''=''"
      | (val) "HasPrefix (args ! i) ''-''" "\<not> Contains (args ! i) ''=''"
          "flagsWithValue (args ! i)"
      | (boo) "HasPrefix (args ! i) ''-''" "\<not> Contains (args ! i) ''=''"
          "\<not> flagsWithValue (args ! i)"
      by blast
    then show ?thesis
    proof cases
      case img
      then have "p = i" using True 1(4) by (simp add: loop_image)
      moreover have "list_all optionGroup [] \<and> concat [] = take (i - i) (drop i args)"
        by simp
      ultimately show ?thesis using True img by blast
    next
      case inl
      then have "findImagePosition_loop args (i + 1) = Inr (int p)"
        using True 1(4) by (simp add: loop_inline)
      from ih(1) [OF _ inl(2) this] inl(1)
      obtain groups where g: "Suc i \<le> p" "p < length args" "\<not> HasPrefix (args ! p) ''-''"
        "list_all optionGroup groups" "concat groups = take (p - Suc i) (drop (Suc i) args)"
        by auto
      have "list_all optionGroup ([args ! i] # groups)"
        using g(4) inl by (simp add: optionGroup_single)
      moreover have "concat ([args ! i] # groups) = take (p - i) (drop i args)"
        using g(1,2,5) by (simp add: take_drop_step)
      ultimately show ?thesis using g(1-3) by (intro conjI exI [of _ "[args ! i] # groups"]) auto
    next
      case boo
      then have "findImagePosition_loop args (i + 1) = Inr (int p)"
        using True 1(4) by (simp add: loop_bool)
      from ih(3) [OF _ boo(2,3) this] boo(1)
      obtain groups where g: "Suc i \<le> p" "p < length args" "\<not> HasPrefix (args ! p) ''-''"
        "list_all optionGroup groups" "concat groups = take (p - Suc i) (drop (Suc i) args)"
        by auto
      have "list_all optionGroup ([args ! i] # groups)"
        using g(4) boo by (simp add: optionGroup_single)
      moreover have "concat ([args ! i] # groups) = take (p - i) (drop i args)"
        using g(1,2,5) by (simp add: take_drop_step)
      ultimately show ?thesis using g(1-3) by (intro conjI exI [of _ "[args ! i] # groups"]) auto
    next
      case val
      then have "findImagePosition_loop args (i + 2) = Inr (int p)"
        using True 1(4) by (simp add: loop_value)
      from ih(2) [OF _ val(2,3) this] val(1)
      obtain groups where g: "Suc (Suc i) \<le> p" "p < length args" "\<not> HasPrefix (args ! p) ''-''"
        "list_all optionGroup groups"
        "concat groups = take (p - Suc (Suc i)) (drop (Suc (Suc i)) args)"
        by auto
      have "list_all optionGroup ([args ! i, args ! Suc i] # groups)"
        using g(4) val by (simp add: optionGroup_pair)
      moreover have "concat ([args ! i, args ! Suc i] # groups) = take (p - i) (drop i args)"
        using g(1,2,5) take_drop_step [of i p args] take_drop_step [of "Suc i" p args] by simp
      ultimately show ?thesis
        using g(1-3) by (intro conjI exI [of _ "[args ! i, args ! Suc i] # groups"]) auto
    qed
  qed
qed

lemma fip_skip_one:
  "findImagePosition_loop (t # ts) (Suc 0) = shifted 1 (findImagePosition ts)"
  using loop_append [of "[t]" ts 0] by (simp add: findImagePosition_def)

lemma fip_single:
  assumes "HasPrefix t ''-''" "Contains t ''='' \<or> \<not> flagsWithValue t"
  shows "findImagePosition (t # ts) = shifted 1 (findImagePosition ts)"
proof (cases "Contains t ''=''")
  case True
  then show ?thesis
    using assms(1) loop_inline [of 0 "t # ts"] by (simp add: findImagePosition_def fip_skip_one)
next
  case False
  then show ?thesis
    using assms loop_bool [of 0 "t # ts"] by (simp add: findImagePosition_def fip_skip_one)
qed

lemma shifted_shifted: "shifted a (shifted b r) = shifted (b + a) r"
  by (cases r) (simp_all add: shifted_def)

lemma fip_group:
  assumes "optionGroup g"
  shows "findImagePosition (g @ rest) = shifted (length g) (findImagePosition rest)"
proof -
  from assms consider
    (one) f where "g = [f]" "HasPrefix f ''-''" "Contains f ''='' \<or> \<not> flagsWithValue f"
    | (two) f v where "g = [f, v]" "HasPrefix f ''-''" "\<not> Contains f ''=''" "flagsWithValue f"
    by (auto simp: optionGroup_def split: list.splits)
  then show ?thesis
  proof cases
    case one
    then show ?thesis by (simp add: fip_single)
  next
    case two
    then show ?thesis by (simp add: fip_pair numeral_2_eq_2)
  qed
qed

lemma fip_groups:
  "list_all optionGroup groups \<Longrightarrow>
   findImagePosition (concat groups @ rest) =
   shifted (length (concat groups)) (findImagePosition rest)"
proof (induction groups)
  case Nil
  show ?case
    using loop_range [of rest 0] by (auto simp: shifted_def findImagePosition_def)
next
  case (Cons g groups)
  then show ?case
    by (simp add: fip_group shifted_shifted add.commute)
qed

lemma fip_image: "\<not> HasPrefix t ''-'' \<Longrightarrow> findImagePosition (t # ts) = Inr 0"
  using loop_image [of 0 "t # ts"] by (simp add: findImagePosition_def)

lemma groups_position:
  assumes "q < length args" "\<not> HasPrefix (args ! q) ''-''"
    "list_all optionGroup groups" "concat groups = take q args"
  shows "findImagePosition args = Inr (int q)"
proof -
  have "args = concat groups @ args ! q # drop (Suc q) args"
    using assms(1,4) by (simp add: id_take_nth_drop [symmetric])
  moreover have "length (concat groups) = q"
    using assms(1,4) by simp
  ultimately show ?thesis
    using fip_groups [OF assms(3), of "args ! q # drop (Suc q) args"] assms(2)
    by (simp add: fip_image shifted_def)
qed

text \<open>
  C4. When \<^verbatim>\<open>findImagePosition\<close> returns a position \<open>p \<ge> 0\<close>, \<open>p\<close> is an index of the
  sequence, the token at \<open>p\<close> does not start with \<^verbatim>\<open>-\<close>, and the tokens before \<open>p\<close> are
  exactly a run of options: each is a flag, or the value that follows a value-consuming
  flag. Conversely a position with these properties is the one returned, so it is the
  first such token. A sequence that begins with a token not starting with \<^verbatim>\<open>-\<close> gives
  position 0.
\<close>

theorem findImagePosition_first_positional:
  "(findImagePosition args = Inr p \<and> 0 \<le> p \<longrightarrow>
      nat p < length args \<and> \<not> HasPrefix (args ! nat p) ''-'' \<and>
      (\<exists>groups. list_all optionGroup groups \<and> concat groups = take (nat p) args))
   \<and> (q < length args \<and> \<not> HasPrefix (args ! q) ''-'' \<and>
       list_all optionGroup gs \<and> concat gs = take q args \<longrightarrow>
      findImagePosition args = Inr (int q))
   \<and> (\<not> HasPrefix t ''-'' \<longrightarrow> findImagePosition (t # ts) = Inr 0)"
proof -
  have "nat p < length args \<and> \<not> HasPrefix (args ! nat p) ''-'' \<and>
      (\<exists>groups. list_all optionGroup groups \<and> concat groups = take (nat p) args)"
    if "findImagePosition args = Inr p" "0 \<le> p"
    using loop_groups [of args 0 "nat p"] that by (simp add: findImagePosition_def)
  then show ?thesis
    using groups_position [of q args gs] fip_image [of t ts] by blast
qed

theorem findImagePosition_first_positional_witness:
  "findImagePosition [''-d'', ''-p'', ''8080:8080'', ''myapp:latest'', ''sh''] = Inr 3
   \<and> (0::int) \<le> 3
   \<and> nat 3 < length [''-d'', ''-p'', ''8080:8080'', ''myapp:latest'', ''sh'']
   \<and> \<not> HasPrefix ([''-d'', ''-p'', ''8080:8080'', ''myapp:latest'', ''sh''] ! nat 3) ''-''
   \<and> list_all optionGroup [[''-d''], [''-p'', ''8080:8080'']]
   \<and> concat [[''-d''], [''-p'', ''8080:8080'']] =
       take 3 [''-d'', ''-p'', ''8080:8080'', ''myapp:latest'', ''sh'']
   \<and> (\<exists>groups. list_all optionGroup groups \<and>
         concat groups = take (nat 3) [''-d'', ''-p'', ''8080:8080'', ''myapp:latest'', ''sh''])
   \<and> \<not> HasPrefix ''alpine'' ''-''
   \<and> findImagePosition [''alpine'', ''echo'', ''hello''] = Inr 0"
proof -
  let ?a = "[''-d'', ''-p'', ''8080:8080'', ''myapp:latest'', ''sh'']"
  let ?g = "[[''-d''], [''-p'', ''8080:8080'']]"
  note T = findImagePosition_first_positional
    [where args = ?a and p = 3 and q = 3 and gs = ?g and t = "''alpine''"
       and ts = "[''echo'', ''hello'']"]
  have g: "list_all optionGroup ?g" "concat ?g = take 3 ?a"
    by (simp_all add: optionGroup_def token_evals)
  have np: "\<not> HasPrefix (?a ! 3) ''-''" "\<not> HasPrefix ''alpine'' ''-''"
    by (simp_all add: token_evals)
  have s: "findImagePosition ?a = Inr 3"
    using T [THEN conjunct2, THEN conjunct1] g np by simp
  show ?thesis
    using s g np T [THEN conjunct1] T [THEN conjunct2, THEN conjunct2] by simp
qed

section \<open>The override extractor\<close>

lemma storeEnvVal_entry: "storeEnvVal envVal result = Inr (result ++ envEntry envVal)"
  by (simp add: storeEnvVal_def envEntry_def SplitN2_def index_def)

lemma envEntry_empty: "envEntry '''' = Map.empty"
  by (simp add: envEntry_def)

lemma envEntry_key_value:
  assumes "CHR ''='' \<notin> set k"
  shows "envEntry (k @ ''='' @ v) = [k \<mapsto> v]"
proof -
  have "\<forall>c\<in>set k. c \<noteq> CHR ''=''" using assms by auto
  then show ?thesis
    by (simp add: envEntry_def Contains_single takeWhile_append2 dropWhile_append2)
qed

lemma long_not_short: "HasPrefix s ''--env='' \<Longrightarrow> \<not> HasPrefix s ''-e=''"
proof
  assume a: "HasPrefix s ''--env=''" and b: "HasPrefix s ''-e=''"
  from a have "take (length ''--env='') s = ''--env=''"
    by (simp only: HasPrefix_def)
  then have "s = ''--env='' @ drop (length ''--env='') s"
    by (metis append_take_drop_id)
  then obtain r where "s = ''--env='' @ r" by blast
  with b show False by (simp add: HasPrefix_def)
qed

lemma envEntry_key: "p \<noteq> '''' \<Longrightarrow> CHR ''='' \<notin> set p \<Longrightarrow> envEntry p = [p \<mapsto> '''']"
  by (simp add: envEntry_def Contains_single)

lemma extract_end: "length args \<le> i \<Longrightarrow> extractUserEnvVars_loop args i result = Inr result"
  by (simp add: extractUserEnvVars_loop.simps)

lemma extract_space:
  "i < length args \<Longrightarrow> args ! i = ''-e'' \<or> args ! i = ''--env'' \<Longrightarrow> i + 1 < length args \<Longrightarrow>
   extractUserEnvVars_loop args i result =
   extractUserEnvVars_loop args (i + 2) (result ++ envEntry (args ! (i + 1)))"
  by (subst extractUserEnvVars_loop.simps) (auto simp: index_def storeEnvVal_entry)

lemma extract_space_last:
  "i < length args \<Longrightarrow> args ! i = ''-e'' \<or> args ! i = ''--env'' \<Longrightarrow> \<not> i + 1 < length args \<Longrightarrow>
   extractUserEnvVars_loop args i result = Inr result"
  by (subst extractUserEnvVars_loop.simps)
     (auto simp: index_def storeEnvVal_entry envEntry_empty extract_end)

lemma extract_inline_short:
  "i < length args \<Longrightarrow> HasPrefix (args ! i) ''-e='' \<Longrightarrow>
   extractUserEnvVars_loop args i result =
   extractUserEnvVars_loop args (i + 1) (result ++ envEntry (TrimPrefix (args ! i) ''-e=''))"
  by (subst extractUserEnvVars_loop.simps) (auto simp: index_def storeEnvVal_entry HasPrefix_def)

lemma extract_inline_long:
  "i < length args \<Longrightarrow> HasPrefix (args ! i) ''--env='' \<Longrightarrow>
   extractUserEnvVars_loop args i result =
   extractUserEnvVars_loop args (i + 1) (result ++ envEntry (TrimPrefix (args ! i) ''--env=''))"
  using long_not_short [of "args ! i"]
  by (subst extractUserEnvVars_loop.simps) (auto simp: index_def storeEnvVal_entry HasPrefix_def)

lemma extract_other:
  "i < length args \<Longrightarrow> args ! i \<noteq> ''-e'' \<Longrightarrow> args ! i \<noteq> ''--env'' \<Longrightarrow>
   \<not> HasPrefix (args ! i) ''-e='' \<Longrightarrow> \<not> HasPrefix (args ! i) ''--env='' \<Longrightarrow>
   extractUserEnvVars_loop args i result = extractUserEnvVars_loop args (i + 1) result"
  by (subst extractUserEnvVars_loop.simps) (auto simp: index_def)

lemma extract_cases:
  assumes "i < length args"
  obtains (space) "args ! i = ''-e'' \<or> args ! i = ''--env''" "i + 1 < length args"
  | (last) "args ! i = ''-e'' \<or> args ! i = ''--env''" "\<not> i + 1 < length args"
  | (short) "HasPrefix (args ! i) ''-e=''"
  | (long) "HasPrefix (args ! i) ''--env=''"
  | (other) "args ! i \<noteq> ''-e''" "args ! i \<noteq> ''--env''"
      "\<not> HasPrefix (args ! i) ''-e=''" "\<not> HasPrefix (args ! i) ''--env=''"
  by blast

lemma extract_total: "\<exists>m. extractUserEnvVars_loop args i result = Inr m"
proof (induction "length args - i" arbitrary: i result rule: less_induct)
  case less
  show ?case
  proof (cases "i < length args")
    case False
    then show ?thesis by (simp add: extract_end)
  next
    case True
    then have d: "length args - (i + 1) < length args - i" by simp
    from True show ?thesis
    proof (cases rule: extract_cases)
      case space
      then have "length args - (i + 2) < length args - i" by simp
      from less [OF this] show ?thesis using True space by (simp add: extract_space)
    next
      case last
      then show ?thesis using True by (simp add: extract_space_last)
    next
      case short
      then show ?thesis using True less [OF d] by (simp add: extract_inline_short)
    next
      case long
      then show ?thesis using True less [OF d] by (simp add: extract_inline_long)
    next
      case other
      then show ?thesis using True less [OF d] by (simp add: extract_other)
    qed
  qed
qed

lemma extract_acc:
  "extractUserEnvVars_loop args i Map.empty = Inr m \<Longrightarrow>
   extractUserEnvVars_loop args i result = Inr (result ++ m)"
proof (induction "length args - i" arbitrary: i result m rule: less_induct)
  case less
  show ?case
  proof (cases "i < length args")
    case False
    then show ?thesis using less.prems by (auto simp: extract_end)
  next
    case True
    then have d: "length args - (i + 1) < length args - i" by simp
    from True show ?thesis
    proof (cases rule: extract_cases)
      case space
      then have d2: "length args - (i + 2) < length args - i" by simp
      let ?e = "envEntry (args ! (i + 1))"
      obtain m' where m': "extractUserEnvVars_loop args (i + 2) Map.empty = Inr m'"
        using extract_total by blast
      have "m = ?e ++ m'"
        using less.prems less.hyps [OF d2 m', of ?e] True space by (simp add: extract_space)
      then show ?thesis
        using less.hyps [OF d2 m', of "result ++ ?e"] True space by (simp add: extract_space)
    next
      case last
      then show ?thesis using True less.prems by (auto simp: extract_space_last)
    next
      case short
      let ?e = "envEntry (TrimPrefix (args ! i) ''-e='')"
      obtain m' where m': "extractUserEnvVars_loop args (i + 1) Map.empty = Inr m'"
        using extract_total by blast
      have "m = ?e ++ m'"
        using less.prems less.hyps [OF d m', of ?e] True short by (simp add: extract_inline_short)
      then show ?thesis
        using less.hyps [OF d m', of "result ++ ?e"] True short by (simp add: extract_inline_short)
    next
      case long
      let ?e = "envEntry (TrimPrefix (args ! i) ''--env='')"
      obtain m' where m': "extractUserEnvVars_loop args (i + 1) Map.empty = Inr m'"
        using extract_total by blast
      have "m = ?e ++ m'"
        using less.prems less.hyps [OF d m', of ?e] True long by (simp add: extract_inline_long)
      then show ?thesis
        using less.hyps [OF d m', of "result ++ ?e"] True long by (simp add: extract_inline_long)
    next
      case other
      then show ?thesis
        using True less.prems less.hyps [OF d, of m result] by (simp add: extract_other)
    qed
  qed
qed

lemma extract_append:
  "extractUserEnvVars_loop (pre @ xs) (length pre + i) result = extractUserEnvVars_loop xs i result"
proof (induction "length xs - i" arbitrary: i result rule: less_induct)
  case less
  show ?case
  proof (cases "i < length xs")
    case False
    then show ?thesis by (simp add: extract_end)
  next
    case True
    then have d: "length xs - (i + 1) < length xs - i" by simp
    have n: "(pre @ xs) ! (length pre + i) = xs ! i" by simp
    have l: "length pre + i < length (pre @ xs)" using True by simp
    from True show ?thesis
    proof (cases rule: extract_cases)
      case space
      then have d2: "length xs - (i + 2) < length xs - i" by simp
      have "extractUserEnvVars_loop (pre @ xs) (length pre + i) result =
            extractUserEnvVars_loop (pre @ xs) (length pre + i + 2)
              (result ++ envEntry ((pre @ xs) ! (length pre + i + 1)))"
        using space l by (intro extract_space) simp_all
      also have "(pre @ xs) ! (length pre + i + 1) = xs ! (i + 1)"
        by (simp add: nth_append)
      also have "extractUserEnvVars_loop (pre @ xs) (length pre + i + 2) (result ++ envEntry (xs ! (i + 1)))
          = extractUserEnvVars_loop xs (i + 2) (result ++ envEntry (xs ! (i + 1)))"
        using less [OF d2] by (simp add: add.assoc)
      finally show ?thesis using True space by (simp add: extract_space)
    next
      case last
      have "extractUserEnvVars_loop (pre @ xs) (length pre + i) result = Inr result"
        using last l by (intro extract_space_last) simp_all
      then show ?thesis using True last by (simp add: extract_space_last)
    next
      case short
      have "extractUserEnvVars_loop (pre @ xs) (length pre + i) result =
            extractUserEnvVars_loop (pre @ xs) (length pre + i + 1)
              (result ++ envEntry (TrimPrefix ((pre @ xs) ! (length pre + i)) ''-e=''))"
        using short l by (intro extract_inline_short) simp_all
      then show ?thesis
        using True short less [OF d] by (simp add: extract_inline_short add.assoc)
    next
      case long
      have "extractUserEnvVars_loop (pre @ xs) (length pre + i) result =
            extractUserEnvVars_loop (pre @ xs) (length pre + i + 1)
              (result ++ envEntry (TrimPrefix ((pre @ xs) ! (length pre + i)) ''--env=''))"
        using long l by (intro extract_inline_long) simp_all
      then show ?thesis
        using True long less [OF d] by (simp add: extract_inline_long add.assoc)
    next
      case other
      have "extractUserEnvVars_loop (pre @ xs) (length pre + i) result =
            extractUserEnvVars_loop (pre @ xs) (length pre + i + 1) result"
        using other l by (intro extract_other) simp_all
      then show ?thesis
        using True other less [OF d] by (simp add: extract_other add.assoc)
    qed
  qed
qed

subsection \<open>The flags at the front of a sequence\<close>

lemma extract_nil: "extractUserEnvVars [] = Inr Map.empty"
  by (simp add: extractUserEnvVars_def extract_end)

lemma extract_cons_space:
  assumes "t = ''-e'' \<or> t = ''--env''" "extractUserEnvVars rest = Inr m"
  shows "extractUserEnvVars (t # p # rest) = Inr (envEntry p ++ m)"
proof -
  have "extractUserEnvVars (t # p # rest) =
        extractUserEnvVars_loop (t # p # rest) (0 + 2) (Map.empty ++ envEntry ((t # p # rest) ! (0 + 1)))"
    unfolding extractUserEnvVars_def using assms(1) by (intro extract_space) simp_all
  also have "\<dots> = extractUserEnvVars_loop ([t, p] @ rest) (length [t, p] + 0) (envEntry p)"
    by simp
  also have "\<dots> = extractUserEnvVars_loop rest 0 (envEntry p)"
    by (rule extract_append)
  also have "\<dots> = Inr (envEntry p ++ m)"
    using assms(2) by (simp add: extractUserEnvVars_def extract_acc)
  finally show ?thesis .
qed

lemma extract_step_one:
  "extractUserEnvVars rest = Inr m \<Longrightarrow>
   extractUserEnvVars_loop (t # rest) (0 + 1) result = Inr (result ++ m)"
  using extract_append [of "[t]" rest 0 result] by (simp add: extractUserEnvVars_def extract_acc)

lemma TrimPrefix_append: "TrimPrefix (pre @ s) pre = s"
  by (simp add: TrimPrefix_def HasPrefix_def)

lemma HasPrefix_append: "HasPrefix (pre @ s) pre"
  by (simp add: HasPrefix_def)

lemma extract_cons_short:
  assumes "extractUserEnvVars rest = Inr m"
  shows "extractUserEnvVars ((''-e='' @ p) # rest) = Inr (envEntry p ++ m)"
proof -
  have "extractUserEnvVars ((''-e='' @ p) # rest) =
        extractUserEnvVars_loop ((''-e='' @ p) # rest) (0 + 1)
          (Map.empty ++ envEntry (TrimPrefix (((''-e='' @ p) # rest) ! 0) ''-e=''))"
    unfolding extractUserEnvVars_def
    by (intro extract_inline_short) (simp_all add: HasPrefix_append del: append.simps)
  also have "\<dots> = Inr (envEntry p ++ m)"
    using extract_step_one [OF assms, of "''-e='' @ p" "envEntry p"]
    by (simp add: TrimPrefix_append del: append.simps)
  finally show ?thesis .
qed

lemma extract_cons_long:
  assumes "extractUserEnvVars rest = Inr m"
  shows "extractUserEnvVars ((''--env='' @ p) # rest) = Inr (envEntry p ++ m)"
proof -
  have "extractUserEnvVars ((''--env='' @ p) # rest) =
        extractUserEnvVars_loop ((''--env='' @ p) # rest) (0 + 1)
          (Map.empty ++ envEntry (TrimPrefix (((''--env='' @ p) # rest) ! 0) ''--env=''))"
    unfolding extractUserEnvVars_def
    by (intro extract_inline_long) (simp_all add: HasPrefix_append del: append.simps)
  also have "\<dots> = Inr (envEntry p ++ m)"
    using extract_step_one [OF assms, of "''--env='' @ p" "envEntry p"]
    by (simp add: TrimPrefix_append del: append.simps)
  finally show ?thesis .
qed

lemma extract_cons_other:
  assumes "t \<noteq> ''-e''" "t \<noteq> ''--env''" "\<not> HasPrefix t ''-e=''" "\<not> HasPrefix t ''--env=''"
    "extractUserEnvVars rest = Inr m"
  shows "extractUserEnvVars (t # rest) = Inr m"
proof -
  have "extractUserEnvVars (t # rest) = extractUserEnvVars_loop (t # rest) (0 + 1) Map.empty"
    unfolding extractUserEnvVars_def using assms(1-4) by (intro extract_other) simp_all
  then show ?thesis
    using extract_step_one [OF assms(5), of t Map.empty] by simp
qed

text \<open>
  C5. \<^verbatim>\<open>extractUserEnvVars\<close> recognises the four forms \<^verbatim>\<open>-e P\<close>, \<^verbatim>\<open>--env P\<close>, \<^verbatim>\<open>-e=P\<close> and
  \<^verbatim>\<open>--env=P\<close> of an environment flag with payload \<open>P\<close>, and nothing else: any other
  token leaves the result to the tokens after it. A payload \<^verbatim>\<open>KEY=VALUE\<close> is split at its
  first \<^verbatim>\<open>=\<close> (the key is what has no \<^verbatim>\<open>=\<close>; the value may contain more of them), and a
  payload \<^verbatim>\<open>KEY\<close> that is not empty and has no \<^verbatim>\<open>=\<close> is recorded with the empty value. The
  entry of a flag is overridden by the entries of the tokens after it (\<open>[k \<mapsto> v] ++ m\<close>
  is \<open>m\<close> wherever \<open>m\<close> is defined), so of several occurrences of a key the last one's value
  is in the result. With no tokens after the flag (\<open>rest = []\<close>, \<open>m\<close> empty) the result is
  the single entry, as for the payload \<^verbatim>\<open>FOO=bar\<close> in each of the four forms.
\<close>

theorem extractUserEnvVars_forms:
  assumes "extractUserEnvVars rest = Inr m"
  shows
    "(CHR ''='' \<notin> set k \<longrightarrow>
        extractUserEnvVars (''-e'' # (k @ ''='' @ v) # rest) = Inr ([k \<mapsto> v] ++ m)
      \<and> extractUserEnvVars (''--env'' # (k @ ''='' @ v) # rest) = Inr ([k \<mapsto> v] ++ m)
      \<and> extractUserEnvVars ((''-e='' @ k @ ''='' @ v) # rest) = Inr ([k \<mapsto> v] ++ m)
      \<and> extractUserEnvVars ((''--env='' @ k @ ''='' @ v) # rest) = Inr ([k \<mapsto> v] ++ m))
     \<and> (p \<noteq> '''' \<and> CHR ''='' \<notin> set p \<longrightarrow>
        extractUserEnvVars (''-e'' # p # rest) = Inr ([p \<mapsto> ''''] ++ m)
      \<and> extractUserEnvVars (''--env'' # p # rest) = Inr ([p \<mapsto> ''''] ++ m)
      \<and> extractUserEnvVars ((''-e='' @ p) # rest) = Inr ([p \<mapsto> ''''] ++ m)
      \<and> extractUserEnvVars ((''--env='' @ p) # rest) = Inr ([p \<mapsto> ''''] ++ m))
     \<and> (t \<noteq> ''-e'' \<and> t \<noteq> ''--env'' \<and> \<not> HasPrefix t ''-e='' \<and> \<not> HasPrefix t ''--env='' \<longrightarrow>
        extractUserEnvVars (t # rest) = Inr m)"
proof (intro conjI impI)
  assume k: "CHR ''='' \<notin> set k"
  show "extractUserEnvVars (''-e'' # (k @ ''='' @ v) # rest) = Inr ([k \<mapsto> v] ++ m)"
    using extract_cons_space [OF _ assms, of "''-e''" "k @ ''='' @ v"] envEntry_key_value [OF k, of v]
    by simp
  show "extractUserEnvVars (''--env'' # (k @ ''='' @ v) # rest) = Inr ([k \<mapsto> v] ++ m)"
    using extract_cons_space [OF _ assms, of "''--env''" "k @ ''='' @ v"] envEntry_key_value [OF k, of v]
    by simp
  show "extractUserEnvVars ((''-e='' @ k @ ''='' @ v) # rest) = Inr ([k \<mapsto> v] ++ m)"
    using extract_cons_short [OF assms, of "k @ ''='' @ v"] envEntry_key_value [OF k, of v]
    by simp
  show "extractUserEnvVars ((''--env='' @ k @ ''='' @ v) # rest) = Inr ([k \<mapsto> v] ++ m)"
    using extract_cons_long [OF assms, of "k @ ''='' @ v"] envEntry_key_value [OF k, of v]
    by simp
next
  assume "p \<noteq> '''' \<and> CHR ''='' \<notin> set p"
  then have e: "envEntry p = [p \<mapsto> '''']" by (simp add: envEntry_key)
  show "extractUserEnvVars (''-e'' # p # rest) = Inr ([p \<mapsto> ''''] ++ m)"
    using extract_cons_space [OF _ assms, of "''-e''" p] e by simp
  show "extractUserEnvVars (''--env'' # p # rest) = Inr ([p \<mapsto> ''''] ++ m)"
    using extract_cons_space [OF _ assms, of "''--env''" p] e by simp
  show "extractUserEnvVars ((''-e='' @ p) # rest) = Inr ([p \<mapsto> ''''] ++ m)"
    using extract_cons_short [OF assms, of p] e by simp
  show "extractUserEnvVars ((''--env='' @ p) # rest) = Inr ([p \<mapsto> ''''] ++ m)"
    using extract_cons_long [OF assms, of p] e by simp
next
  assume "t \<noteq> ''-e'' \<and> t \<noteq> ''--env'' \<and> \<not> HasPrefix t ''-e='' \<and> \<not> HasPrefix t ''--env=''"
  then show "extractUserEnvVars (t # rest) = Inr m"
    using extract_cons_other [OF _ _ _ _ assms, of t] by simp
qed

theorem extractUserEnvVars_forms_witness:
  "extractUserEnvVars [] = Inr Map.empty
   \<and> CHR ''='' \<notin> set ''FOO''
   \<and> extractUserEnvVars [''-e'', ''FOO=bar''] = Inr [''FOO'' \<mapsto> ''bar'']
   \<and> extractUserEnvVars [''--env'', ''FOO=bar''] = Inr [''FOO'' \<mapsto> ''bar'']
   \<and> extractUserEnvVars [''-e=FOO=bar''] = Inr [''FOO'' \<mapsto> ''bar'']
   \<and> extractUserEnvVars [''--env=FOO=bar''] = Inr [''FOO'' \<mapsto> ''bar'']
   \<and> extractUserEnvVars [''-e'', ''URL=http://x.com?a=b''] = Inr [''URL'' \<mapsto> ''http://x.com?a=b'']
   \<and> ''PATH'' \<noteq> '''' \<and> CHR ''='' \<notin> set ''PATH''
   \<and> extractUserEnvVars [''-e'', ''PATH''] = Inr [''PATH'' \<mapsto> '''']
   \<and> extractUserEnvVars [''--env=PATH''] = Inr [''PATH'' \<mapsto> '''']
   \<and> ''-p'' \<noteq> ''-e'' \<and> ''-p'' \<noteq> ''--env'' \<and> \<not> HasPrefix ''-p'' ''-e='' \<and> \<not> HasPrefix ''-p'' ''--env=''
   \<and> extractUserEnvVars [''-p''] = Inr Map.empty
   \<and> extractUserEnvVars [''-e'', ''K=2''] = Inr [''K'' \<mapsto> ''2'']
   \<and> extractUserEnvVars [''-e'', ''K=1'', ''-e'', ''K=2''] = Inr [''K'' \<mapsto> ''2'']"
proof -
  have nil: "extractUserEnvVars [] = Inr Map.empty"
    by (simp add: extractUserEnvVars_def extractUserEnvVars_loop.simps)
  note A = extractUserEnvVars_forms
    [OF nil, where k = "''FOO''" and v = "''bar''" and p = "''PATH''" and t = "''-p''"]
  note B = extractUserEnvVars_forms
    [OF nil, where k = "''URL''" and v = "''http://x.com?a=b''" and p = "''PATH''" and t = "''-p''"]
  note C = extractUserEnvVars_forms
    [OF nil, where k = "''K''" and v = "''2''" and p = "''PATH''" and t = "''-p''"]
  have k2: "extractUserEnvVars [''-e'', ''K=2''] = Inr [''K'' \<mapsto> ''2'']"
    using C [THEN conjunct1] by simp
  note D = extractUserEnvVars_forms
    [OF k2, where k = "''K''" and v = "''1''" and p = "''PATH''" and t = "''-p''"]
  have d: "extractUserEnvVars [''-e'', ''K=1'', ''-e'', ''K=2''] = Inr [''K'' \<mapsto> ''2'']"
    using D [THEN conjunct1] by simp
  show ?thesis
    using nil k2 d A [THEN conjunct1] A [THEN conjunct2, THEN conjunct1]
      A [THEN conjunct2, THEN conjunct2] B [THEN conjunct1]
    by (simp add: HasPrefix_def)
qed

section \<open>Totality of parsing\<close>

lemma shifted_found: "shifted n (Inr 0) = Inr (int n)"
  by (simp add: shifted_def)

lemma fip_skip_prefix:
  "\<forall>t\<in>set pre. HasPrefix t ''-'' \<and> \<not> flagsWithValue t \<Longrightarrow>
   findImagePosition (pre @ xs) = shifted (length pre) (findImagePosition xs)"
proof (induction pre)
  case Nil
  obtain p where "findImagePosition xs = Inr p" "p = - 1 \<or> 0 \<le> p"
    using loop_range [of xs 0] by (auto simp: findImagePosition_def)
  then show ?case by (auto simp: shifted_def)
next
  case (Cons t pre)
  then have "findImagePosition (t # pre @ xs) = shifted 1 (findImagePosition (pre @ xs))"
    by (intro fip_single) simp_all
  with Cons show ?case by (simp add: shifted_shifted)
qed

lemma loop_value_last:
  assumes "HasPrefix t ''-''" "\<not> Contains t ''=''" "flagsWithValue t"
  shows "findImagePosition_loop (pre @ [t]) (length pre) = Inr (- 1)"
proof -
  have "findImagePosition_loop (pre @ [t]) (length pre) =
        findImagePosition_loop (pre @ [t]) (length pre + 2)"
    using assms by (intro loop_value) simp_all
  then show ?thesis by (simp add: loop_end)
qed

lemma extract_skip_one:
  assumes "t \<noteq> ''-e''" "t \<noteq> ''--env''" "\<not> HasPrefix t ''-e=''" "\<not> HasPrefix t ''--env=''"
  shows "extractUserEnvVars (t # rest) = extractUserEnvVars rest"
proof -
  obtain m where m: "extractUserEnvVars rest = Inr m"
    using extract_total [of rest 0 Map.empty] by (auto simp: extractUserEnvVars_def)
  show ?thesis
    using extract_cons_other [OF assms m] m by simp
qed

lemma extract_skip_prefix:
  "\<forall>t\<in>set pre. t \<noteq> ''-e'' \<and> t \<noteq> ''--env'' \<and> \<not> HasPrefix t ''-e='' \<and> \<not> HasPrefix t ''--env='' \<Longrightarrow>
   extractUserEnvVars (pre @ xs) = extractUserEnvVars xs"
  by (induction pre) (simp_all add: extract_skip_one)

lemma extract_single_flag:
  "t = ''-e'' \<or> t = ''--env'' \<Longrightarrow> extractUserEnvVars [t] = Inr Map.empty"
  unfolding extractUserEnvVars_def by (rule extract_space_last) auto

lemma storeEnvVal_key:
  "p \<noteq> '''' \<Longrightarrow> CHR ''='' \<notin> set p \<Longrightarrow> storeEnvVal p result = Inr (result(p \<mapsto> ''''))"
  by (simp add: storeEnvVal_entry envEntry_key)

text \<open>
  C9. Both parsers are total and degrade gracefully on malformed input.

  \<^item> For every token sequence, and from every cursor, \<^verbatim>\<open>findImagePosition\<close> and
    \<^verbatim>\<open>extractUserEnvVars\<close> return a result and never the panic of an index out of range;
    the position returned is \<open>- 1\<close> or an index of the sequence. This includes a sequence
    whose last token is \<^verbatim>\<open>-e\<close> or \<^verbatim>\<open>--env\<close>. (Both loops are defined by recursion with a
    termination proof, so they terminate.)
  \<^item> The locator skips a flag it does not know as a flag without value: the cursor moves
    by one, a run of such flags before the rest of a sequence only shifts the position
    found in the rest, and the first token after the run that does not start with
    \<^verbatim>\<open>-\<close> is the image. A value-consuming flag that is the last token, with no value
    after it, gives \<open>- 1\<close>.
  \<^item> The extractor skips every token that is not one of the four environment-flag forms:
    the cursor moves by one and the mapping stays as it is, so a run of such tokens
    contributes nothing, alone or before a final \<^verbatim>\<open>-e\<close> or \<^verbatim>\<open>--env\<close>.
  \<^item> A non-empty payload without \<^verbatim>\<open>=\<close> is recorded as a key with the empty value, in
    each of the four forms.
  \<^item> A token \<^verbatim>\<open>-e\<close> or \<^verbatim>\<open>--env\<close> that is the last token ends the loop with the mapping
    collected so far.
\<close>

theorem parsing_total:
  "((\<exists>pos. findImagePosition args = Inr pos \<and> (pos = - 1 \<or> (0 \<le> pos \<and> pos < int (length args))))
    \<and> (\<exists>pos. findImagePosition_loop args i = Inr pos)
    \<and> (\<exists>m. extractUserEnvVars args = Inr m)
    \<and> (\<exists>m. extractUserEnvVars_loop args i result = Inr m)
    \<and> (\<exists>m. extractUserEnvVars (args @ [''-e'']) = Inr m)
    \<and> (\<exists>m. extractUserEnvVars (args @ [''--env'']) = Inr m))
   \<and> ((i < length args \<and> HasPrefix (args ! i) ''-'' \<and> \<not> flagsWithValue (args ! i) \<longrightarrow>
         findImagePosition_loop args i = findImagePosition_loop args (i + 1))
      \<and> ((\<forall>t\<in>set pre. HasPrefix t ''-'' \<and> \<not> flagsWithValue t) \<longrightarrow>
         findImagePosition (pre @ xs) = shifted (length pre) (findImagePosition xs))
      \<and> ((\<forall>t\<in>set pre. HasPrefix t ''-'' \<and> \<not> flagsWithValue t) \<and> \<not> HasPrefix img ''-'' \<longrightarrow>
         findImagePosition (pre @ img # rest) = Inr (int (length pre)))
      \<and> (HasPrefix t ''-'' \<and> \<not> Contains t ''='' \<and> flagsWithValue t \<longrightarrow>
         findImagePosition_loop (pre @ [t]) (length pre) = Inr (- 1)))
   \<and> ((i < length args \<and> args ! i \<noteq> ''-e'' \<and> args ! i \<noteq> ''--env''
          \<and> \<not> HasPrefix (args ! i) ''-e='' \<and> \<not> HasPrefix (args ! i) ''--env='' \<longrightarrow>
         extractUserEnvVars_loop args i result = extractUserEnvVars_loop args (i + 1) result)
      \<and> ((\<forall>t\<in>set pre. t \<noteq> ''-e'' \<and> t \<noteq> ''--env''
            \<and> \<not> HasPrefix t ''-e='' \<and> \<not> HasPrefix t ''--env='') \<longrightarrow>
         extractUserEnvVars (pre @ xs) = extractUserEnvVars xs
       \<and> extractUserEnvVars pre = Inr Map.empty
       \<and> extractUserEnvVars (pre @ [''-e'']) = Inr Map.empty
       \<and> extractUserEnvVars (pre @ [''--env'']) = Inr Map.empty))
   \<and> (p \<noteq> '''' \<and> CHR ''='' \<notin> set p \<longrightarrow>
         storeEnvVal p result = Inr (result(p \<mapsto> ''''))
       \<and> (i + 1 < length args \<and> (args ! i = ''-e'' \<or> args ! i = ''--env'') \<and> args ! (i + 1) = p \<longrightarrow>
           extractUserEnvVars_loop args i result =
           extractUserEnvVars_loop args (i + 2) (result(p \<mapsto> '''')))
       \<and> (i < length args \<and> (args ! i = ''-e='' @ p \<or> args ! i = ''--env='' @ p) \<longrightarrow>
           extractUserEnvVars_loop args i result =
           extractUserEnvVars_loop args (i + 1) (result(p \<mapsto> '''')))
       \<and> (\<exists>m. extractUserEnvVars rest = Inr m
            \<and> extractUserEnvVars (''-e'' # p # rest) = Inr ([p \<mapsto> ''''] ++ m)
            \<and> extractUserEnvVars (''--env'' # p # rest) = Inr ([p \<mapsto> ''''] ++ m)
            \<and> extractUserEnvVars ((''-e='' @ p) # rest) = Inr ([p \<mapsto> ''''] ++ m)
            \<and> extractUserEnvVars ((''--env='' @ p) # rest) = Inr ([p \<mapsto> ''''] ++ m)))
   \<and> (i < length args \<and> (args ! i = ''-e'' \<or> args ! i = ''--env'') \<and> length args \<le> i + 1 \<longrightarrow>
         extractUserEnvVars_loop args i result = Inr result)"
proof -
  have total: "\<exists>m. extractUserEnvVars ys = Inr m" for ys
    using extract_total [of ys 0 Map.empty] by (simp add: extractUserEnvVars_def)
  have T1: "\<exists>pos. findImagePosition args = Inr pos \<and> (pos = - 1 \<or> (0 \<le> pos \<and> pos < int (length args)))"
    using loop_range [of args 0] by (simp add: findImagePosition_def)
  have T2: "\<exists>pos. findImagePosition_loop args i = Inr pos"
    using loop_range [of args i] by blast
  note T = conjI [OF T1 conjI [OF T2 conjI [OF total conjI [OF extract_total conjI [OF total total]]]]]
  have L1: "i < length args \<and> HasPrefix (args ! i) ''-'' \<and> \<not> flagsWithValue (args ! i) \<longrightarrow>
         findImagePosition_loop args i = findImagePosition_loop args (i + 1)"
  proof
    assume a: "i < length args \<and> HasPrefix (args ! i) ''-'' \<and> \<not> flagsWithValue (args ! i)"
    show "findImagePosition_loop args i = findImagePosition_loop args (i + 1)"
    proof (cases "Contains (args ! i) ''=''")
      case True
      with a show ?thesis by (intro loop_inline) simp_all
    next
      case False
      with a show ?thesis by (intro loop_bool) simp_all
    qed
  qed
  have L2: "(\<forall>t\<in>set pre. HasPrefix t ''-'' \<and> \<not> flagsWithValue t) \<longrightarrow>
         findImagePosition (pre @ xs) = shifted (length pre) (findImagePosition xs)"
    using fip_skip_prefix [of pre xs] by (rule impI)
  have L3: "(\<forall>t\<in>set pre. HasPrefix t ''-'' \<and> \<not> flagsWithValue t) \<and> \<not> HasPrefix img ''-'' \<longrightarrow>
         findImagePosition (pre @ img # rest) = Inr (int (length pre))"
  proof
    assume a: "(\<forall>t\<in>set pre. HasPrefix t ''-'' \<and> \<not> flagsWithValue t) \<and> \<not> HasPrefix img ''-''"
    then have "findImagePosition (pre @ img # rest) =
        shifted (length pre) (findImagePosition (img # rest))"
      by (intro fip_skip_prefix) simp
    also have "findImagePosition (img # rest) = Inr 0"
      using a by (intro fip_image) simp
    finally show "findImagePosition (pre @ img # rest) = Inr (int (length pre))"
      by (simp only: shifted_found)
  qed
  have L4: "HasPrefix t ''-'' \<and> \<not> Contains t ''='' \<and> flagsWithValue t \<longrightarrow>
         findImagePosition_loop (pre @ [t]) (length pre) = Inr (- 1)"
    using loop_value_last [of t pre] by simp
  note L = conjI [OF L1 conjI [OF L2 conjI [OF L3 L4]]]
  have E1: "i < length args \<and> args ! i \<noteq> ''-e'' \<and> args ! i \<noteq> ''--env''
          \<and> \<not> HasPrefix (args ! i) ''-e='' \<and> \<not> HasPrefix (args ! i) ''--env='' \<longrightarrow>
         extractUserEnvVars_loop args i result = extractUserEnvVars_loop args (i + 1) result"
    using extract_other [of i args result] by simp
  have E2: "(\<forall>t\<in>set pre. t \<noteq> ''-e'' \<and> t \<noteq> ''--env''
            \<and> \<not> HasPrefix t ''-e='' \<and> \<not> HasPrefix t ''--env='') \<longrightarrow>
         extractUserEnvVars (pre @ xs) = extractUserEnvVars xs
       \<and> extractUserEnvVars pre = Inr Map.empty
       \<and> extractUserEnvVars (pre @ [''-e'']) = Inr Map.empty
       \<and> extractUserEnvVars (pre @ [''--env'']) = Inr Map.empty"
  proof
    assume h: "\<forall>t\<in>set pre. t \<noteq> ''-e'' \<and> t \<noteq> ''--env''
            \<and> \<not> HasPrefix t ''-e='' \<and> \<not> HasPrefix t ''--env=''"
    have a: "extractUserEnvVars (pre @ xs) = extractUserEnvVars xs"
      using h by (rule extract_skip_prefix)
    have b: "extractUserEnvVars pre = Inr Map.empty"
      using extract_skip_prefix [OF h, of "[]"] by (simp add: extract_nil)
    have c: "extractUserEnvVars (pre @ [''-e'']) = Inr Map.empty"
      using extract_skip_prefix [OF h, of "[''-e'']"] by (simp add: extract_single_flag)
    have d: "extractUserEnvVars (pre @ [''--env'']) = Inr Map.empty"
      using extract_skip_prefix [OF h, of "[''--env'']"] by (simp add: extract_single_flag)
    show "extractUserEnvVars (pre @ xs) = extractUserEnvVars xs
       \<and> extractUserEnvVars pre = Inr Map.empty
       \<and> extractUserEnvVars (pre @ [''-e'']) = Inr Map.empty
       \<and> extractUserEnvVars (pre @ [''--env'']) = Inr Map.empty"
      by (rule conjI [OF a conjI [OF b conjI [OF c d]]])
  qed
  note E = conjI [OF E1 E2]
  have P: "p \<noteq> '''' \<and> CHR ''='' \<notin> set p \<longrightarrow>
         storeEnvVal p result = Inr (result(p \<mapsto> ''''))
       \<and> (i + 1 < length args \<and> (args ! i = ''-e'' \<or> args ! i = ''--env'') \<and> args ! (i + 1) = p \<longrightarrow>
           extractUserEnvVars_loop args i result =
           extractUserEnvVars_loop args (i + 2) (result(p \<mapsto> '''')))
       \<and> (i < length args \<and> (args ! i = ''-e='' @ p \<or> args ! i = ''--env='' @ p) \<longrightarrow>
           extractUserEnvVars_loop args i result =
           extractUserEnvVars_loop args (i + 1) (result(p \<mapsto> '''')))
       \<and> (\<exists>m. extractUserEnvVars rest = Inr m
            \<and> extractUserEnvVars (''-e'' # p # rest) = Inr ([p \<mapsto> ''''] ++ m)
            \<and> extractUserEnvVars (''--env'' # p # rest) = Inr ([p \<mapsto> ''''] ++ m)
            \<and> extractUserEnvVars ((''-e='' @ p) # rest) = Inr ([p \<mapsto> ''''] ++ m)
            \<and> extractUserEnvVars ((''--env='' @ p) # rest) = Inr ([p \<mapsto> ''''] ++ m))"
  proof
    assume h: "p \<noteq> '''' \<and> CHR ''='' \<notin> set p"
    then have e: "envEntry p = [p \<mapsto> '''']" by (simp add: envEntry_key)
    have r: "result ++ [p \<mapsto> ''''] = result(p \<mapsto> '''')" for result :: "string \<rightharpoonup> string"
      by simp
    have 1: "storeEnvVal p result = Inr (result(p \<mapsto> ''''))"
      using h by (simp add: storeEnvVal_key)
    have 2: "i + 1 < length args \<and> (args ! i = ''-e'' \<or> args ! i = ''--env'') \<and> args ! (i + 1) = p \<longrightarrow>
           extractUserEnvVars_loop args i result =
           extractUserEnvVars_loop args (i + 2) (result(p \<mapsto> ''''))"
    proof
      assume a: "i + 1 < length args \<and> (args ! i = ''-e'' \<or> args ! i = ''--env'') \<and> args ! (i + 1) = p"
      then have "extractUserEnvVars_loop args i result =
          extractUserEnvVars_loop args (i + 2) (result ++ envEntry (args ! (i + 1)))"
        by (intro extract_space) simp_all
      with a show "extractUserEnvVars_loop args i result =
           extractUserEnvVars_loop args (i + 2) (result(p \<mapsto> ''''))"
        by (simp only: e r)
    qed
    have 3: "i < length args \<and> (args ! i = ''-e='' @ p \<or> args ! i = ''--env='' @ p) \<longrightarrow>
           extractUserEnvVars_loop args i result =
           extractUserEnvVars_loop args (i + 1) (result(p \<mapsto> ''''))"
    proof
      assume a: "i < length args \<and> (args ! i = ''-e='' @ p \<or> args ! i = ''--env='' @ p)"
      then consider "args ! i = ''-e='' @ p" | "args ! i = ''--env='' @ p" by blast
      then show "extractUserEnvVars_loop args i result =
           extractUserEnvVars_loop args (i + 1) (result(p \<mapsto> ''''))"
      proof cases
        case 1
        then have s: "HasPrefix (args ! i) ''-e=''" "TrimPrefix (args ! i) ''-e='' = p"
          by (simp_all only: HasPrefix_append TrimPrefix_append)
        from a have "i < length args" by simp
        from extract_inline_short [OF this s(1), of result] show ?thesis
          by (simp only: s(2) e r)
      next
        case 2
        then have s: "HasPrefix (args ! i) ''--env=''" "TrimPrefix (args ! i) ''--env='' = p"
          by (simp_all only: HasPrefix_append TrimPrefix_append)
        from a have "i < length args" by simp
        from extract_inline_long [OF this s(1), of result] show ?thesis
          by (simp only: s(2) e r)
      qed
    qed
    obtain m where m: "extractUserEnvVars rest = Inr m"
      using total by blast
    have 4: "extractUserEnvVars (''-e'' # p # rest) = Inr ([p \<mapsto> ''''] ++ m)"
      using extract_cons_space [OF _ m, of "''-e''" p] by (simp only: e) simp
    have 5: "extractUserEnvVars (''--env'' # p # rest) = Inr ([p \<mapsto> ''''] ++ m)"
      using extract_cons_space [OF _ m, of "''--env''" p] by (simp only: e) simp
    have 6: "extractUserEnvVars ((''-e='' @ p) # rest) = Inr ([p \<mapsto> ''''] ++ m)"
      using extract_cons_short [OF m, of p] by (simp only: e)
    have 7: "extractUserEnvVars ((''--env='' @ p) # rest) = Inr ([p \<mapsto> ''''] ++ m)"
      using extract_cons_long [OF m, of p] by (simp only: e)
    have 8: "\<exists>m. extractUserEnvVars rest = Inr m
            \<and> extractUserEnvVars (''-e'' # p # rest) = Inr ([p \<mapsto> ''''] ++ m)
            \<and> extractUserEnvVars (''--env'' # p # rest) = Inr ([p \<mapsto> ''''] ++ m)
            \<and> extractUserEnvVars ((''-e='' @ p) # rest) = Inr ([p \<mapsto> ''''] ++ m)
            \<and> extractUserEnvVars ((''--env='' @ p) # rest) = Inr ([p \<mapsto> ''''] ++ m)"
      by (rule exI [of _ m]) (rule conjI [OF m conjI [OF 4 conjI [OF 5 conjI [OF 6 7]]]])
    show "storeEnvVal p result = Inr (result(p \<mapsto> ''''))
       \<and> (i + 1 < length args \<and> (args ! i = ''-e'' \<or> args ! i = ''--env'') \<and> args ! (i + 1) = p \<longrightarrow>
           extractUserEnvVars_loop args i result =
           extractUserEnvVars_loop args (i + 2) (result(p \<mapsto> '''')))
       \<and> (i < length args \<and> (args ! i = ''-e='' @ p \<or> args ! i = ''--env='' @ p) \<longrightarrow>
           extractUserEnvVars_loop args i result =
           extractUserEnvVars_loop args (i + 1) (result(p \<mapsto> '''')))
       \<and> (\<exists>m. extractUserEnvVars rest = Inr m
            \<and> extractUserEnvVars (''-e'' # p # rest) = Inr ([p \<mapsto> ''''] ++ m)
            \<and> extractUserEnvVars (''--env'' # p # rest) = Inr ([p \<mapsto> ''''] ++ m)
            \<and> extractUserEnvVars ((''-e='' @ p) # rest) = Inr ([p \<mapsto> ''''] ++ m)
            \<and> extractUserEnvVars ((''--env='' @ p) # rest) = Inr ([p \<mapsto> ''''] ++ m))"
      by (rule conjI [OF 1 conjI [OF 2 conjI [OF 3 8]]])
  qed
  have F: "i < length args \<and> (args ! i = ''-e'' \<or> args ! i = ''--env'') \<and> length args \<le> i + 1 \<longrightarrow>
         extractUserEnvVars_loop args i result = Inr result"
  proof
    assume "i < length args \<and> (args ! i = ''-e'' \<or> args ! i = ''--env'') \<and> length args \<le> i + 1"
    then show "extractUserEnvVars_loop args i result = Inr result"
      by (intro extract_space_last) auto
  qed
  show ?thesis
    by (rule conjI [OF T conjI [OF L conjI [OF E conjI [OF P F]]]])
qed

theorem parsing_total_witness:
  "findImagePosition [''--weird'', ''--rm'', ''img'', ''x''] = Inr 2
   \<and> findImagePosition_loop [''-d'', ''-p''] 1 = Inr (- 1)
   \<and> extractUserEnvVars [''--weird'', ''img''] = Inr Map.empty
   \<and> extractUserEnvVars [''--weird'', ''img'', ''-e''] = Inr Map.empty
   \<and> storeEnvVal ''PATH'' Map.empty = Inr [''PATH'' \<mapsto> '''']
   \<and> extractUserEnvVars [''-e'', ''PATH''] = Inr [''PATH'' \<mapsto> '''']
   \<and> extractUserEnvVars [''--env=PATH''] = Inr [''PATH'' \<mapsto> '''']
   \<and> extractUserEnvVars_loop [''-p'', ''80'', ''--env''] 2 [''K'' \<mapsto> ''1''] = Inr [''K'' \<mapsto> ''1'']"
proof -
  note W = parsing_total
    [where args = "[''-p'', ''80'', ''--env'']" and i = 2 and result = "[''K'' \<mapsto> ''1'']"
       and pre = "[''--weird'', ''--rm'']" and img = "''img''" and rest = "[''x'']"
       and xs = "[]" and t = "''-p''" and p = "''PATH''"]
  note V = parsing_total
    [where args = "[]" and i = 0 and result = Map.empty
       and pre = "[''--weird'', ''img'']" and img = "''img''" and rest = "[]"
       and xs = "[]" and t = "''-p''" and p = "''PATH''"]
  note U = parsing_total
    [where args = "[]" and i = 0 and result = Map.empty
       and pre = "[''-d'']" and img = "''img''" and rest = "[]"
       and xs = "[]" and t = "''-p''" and p = "''PATH''"]
  have 1: "findImagePosition [''--weird'', ''--rm'', ''img'', ''x''] = Inr 2"
    using W [THEN conjunct2, THEN conjunct1, THEN conjunct2, THEN conjunct2, THEN conjunct1]
    by (simp add: token_evals)
  have 2: "findImagePosition_loop [''-d'', ''-p''] 1 = Inr (- 1)"
    using U [THEN conjunct2, THEN conjunct1, THEN conjunct2, THEN conjunct2, THEN conjunct2]
    by (simp add: token_evals)
  have 3: "extractUserEnvVars [''--weird'', ''img''] = Inr Map.empty
      \<and> extractUserEnvVars [''--weird'', ''img'', ''-e''] = Inr Map.empty"
    using V [THEN conjunct2, THEN conjunct2, THEN conjunct1, THEN conjunct2]
    by (simp add: HasPrefix_def extract_nil)
  have 4: "storeEnvVal ''PATH'' Map.empty = Inr [''PATH'' \<mapsto> '''']
      \<and> extractUserEnvVars [''-e'', ''PATH''] = Inr [''PATH'' \<mapsto> '''']
      \<and> extractUserEnvVars [''--env=PATH''] = Inr [''PATH'' \<mapsto> '''']"
    using V [THEN conjunct2, THEN conjunct2, THEN conjunct2, THEN conjunct1]
    by (auto simp: extract_nil)
  have 5: "extractUserEnvVars_loop [''-p'', ''80'', ''--env''] 2 [''K'' \<mapsto> ''1''] = Inr [''K'' \<mapsto> ''1'']"
    using W [THEN conjunct2, THEN conjunct2, THEN conjunct2, THEN conjunct2]
    by (simp add: eval_nat_numeral)
  show ?thesis
    using 1 2 3 4 5 by simp
qed

section \<open>The builder of \<^verbatim>\<open>docker run\<close>\<close>

text \<open>The two injection loops and the writing loop in closed form.\<close>

lemma injectSecrets_flags:
  "injectSecrets u secrets newArgs =
   newArgs @ envFlags (filter (\<lambda>(k, v). k \<notin> dom u) secrets)"
  by (induction secrets arbitrary: newArgs) (auto simp: envFlags_def domIff)

lemma injectAll_flags: "injectAll secrets newArgs = newArgs @ envFlags secrets"
  by (induction secrets arbitrary: newArgs) (auto simp: envFlags_def)

lemma writeSecrets_lines:
  "\<forall>c d. Write os c d = (c @ d, None) \<Longrightarrow>
   writeSecrets os secrets content = content @ envLines secrets"
  by (induction secrets arbitrary: content) (auto simp: envLines_def)

lemma map_of_filter_keys:
  "map_of (filter (\<lambda>(k, v). k \<notin> A) kvs) = map_of kvs |` (- A)"
  by (induction kvs) (auto simp: restrict_map_def fun_eq_iff)

lemma extractUserEnvVars_total: "\<exists>m. extractUserEnvVars args = Inr m"
  using extract_total [of args 0 Map.empty] by (simp add: extractUserEnvVars_def)

lemmas extract_evals =
  extractUserEnvVars_def extractUserEnvVars_loop.simps index_def storeEnvVal_def SplitN2_def
  TrimPrefix_def

lemmas locate_evals = findImagePosition_def findImagePosition_loop.simps index_def

text \<open>
  C1. For every argument list and every secret set, \<^verbatim>\<open>runDockerRun\<close> does not panic and
  calls the runner exactly once, with the executable \<^verbatim>\<open>docker\<close>, a \<^verbatim>\<open>nil\<close> environment
  map and this argument vector, where \<open>overrides\<close> is what \<^verbatim>\<open>extractUserEnvVars\<close> gives and
  \<open>imagePos\<close> what \<^verbatim>\<open>findImagePosition\<close> gives: with \<open>imagePos \<ge> 0\<close>, the subcommand, the
  arguments before \<open>imagePos\<close>, the \<^verbatim>\<open>-e\<close>, \<^verbatim>\<open>KEY=VALUE\<close> pairs of the secrets whose key
  is not overridden, then the arguments from \<open>imagePos\<close> on, unchanged; with
  \<open>imagePos = - 1\<close>, the subcommand, these pairs, then all the arguments.
\<close>

theorem runDockerRun_vector:
  "\<exists>overrides imagePos.
     extractUserEnvVars (DockerArgs opts) = Inr overrides
   \<and> findImagePosition (DockerArgs opts) = Inr imagePos
   \<and> (imagePos = - 1 \<or> (0 \<le> imagePos \<and> imagePos < int (length (DockerArgs opts))))
   \<and> runDockerRun opts secrets deps w =
       Inr (RunCommand deps ''docker''
              ([DockerCommand opts] @
               (if 0 \<le> imagePos
                then take (nat imagePos) (DockerArgs opts) @
                     envFlags (filter (\<lambda>(k, v). k \<notin> dom overrides) secrets) @
                     drop (nat imagePos) (DockerArgs opts)
                else envFlags (filter (\<lambda>(k, v). k \<notin> dom overrides) secrets) @
                     DockerArgs opts))
              None w)"
proof -
  obtain overrides where o: "extractUserEnvVars (DockerArgs opts) = Inr overrides"
    using extract_total [of "DockerArgs opts" 0 Map.empty] by (auto simp: extractUserEnvVars_def)
  obtain imagePos where p: "findImagePosition (DockerArgs opts) = Inr imagePos"
    and r: "imagePos = - 1 \<or> (0 \<le> imagePos \<and> imagePos < int (length (DockerArgs opts)))"
    using loop_range [of "DockerArgs opts" 0] by (auto simp: findImagePosition_def)
  have "runDockerRun opts secrets deps w =
       Inr (RunCommand deps ''docker''
              ([DockerCommand opts] @
               (if 0 \<le> imagePos
                then take (nat imagePos) (DockerArgs opts) @
                     envFlags (filter (\<lambda>(k, v). k \<notin> dom overrides) secrets) @
                     drop (nat imagePos) (DockerArgs opts)
                else envFlags (filter (\<lambda>(k, v). k \<notin> dom overrides) secrets) @
                     DockerArgs opts))
              None w)"
    using r by (auto simp: runDockerRun_def o p sliceTo_def sliceFrom_def
        injectSecrets_flags Let_def)
  with o p r show ?thesis by blast
qed

theorem runDockerRun_vector_witness:
  "runDockerRun
     \<lparr>EnvName = ''development'', EnvFlagSet = True, DockerCommand = ''run'',
      DockerArgs = [''-d'', ''--name'', ''test'', ''myimage'', ''cmd'', ''arg'']\<rparr>
     [(''SECRET'', ''value'')] runnerOk emptyWorld =
   Inr (None,
        \<lparr>files = Map.empty,
         started =
           [\<lparr>command = ''docker'',
             argv = [''run'', ''-d'', ''--name'', ''test'', ''-e'', ''SECRET=value'',
                     ''myimage'', ''cmd'', ''arg''],
             environ = None, filesAtStart = Map.empty\<rparr>]\<rparr>)
   \<and> runDockerRun
     \<lparr>EnvName = ''development'', EnvFlagSet = True, DockerCommand = ''run'',
      DockerArgs = [''-d'', ''--rm'']\<rparr>
     [(''SECRET'', ''value'')] runnerOk emptyWorld =
   Inr (None,
        \<lparr>files = Map.empty,
         started =
           [\<lparr>command = ''docker'',
             argv = [''run'', ''-e'', ''SECRET=value'', ''-d'', ''--rm''],
             environ = None, filesAtStart = Map.empty\<rparr>]\<rparr>)"
proof -
  let ?a = "[''-d'', ''--name'', ''test'', ''myimage'', ''cmd'', ''arg'']"
  let ?b = "[''-d'', ''--rm'']"
  let ?o1 = "\<lparr>EnvName = ''development'', EnvFlagSet = True, DockerCommand = ''run'',
      DockerArgs = ?a\<rparr>"
  let ?o2 = "\<lparr>EnvName = ''development'', EnvFlagSet = True, DockerCommand = ''run'',
      DockerArgs = ?b\<rparr>"
  have ea: "extractUserEnvVars ?a = Inr Map.empty" and eb: "extractUserEnvVars ?b = Inr Map.empty"
    by (simp_all add: extract_evals HasPrefix_def)
  have pa: "findImagePosition ?a = Inr 3" and pb: "findImagePosition ?b = Inr (- 1)"
    by (simp_all add: locate_evals token_evals)
  have 1: "runDockerRun ?o1 [(''SECRET'', ''value'')] runnerOk emptyWorld =
      Inr (RunCommand runnerOk ''docker''
        [''run'', ''-d'', ''--name'', ''test'', ''-e'', ''SECRET=value'', ''myimage'', ''cmd'', ''arg'']
        None emptyWorld)"
    using runDockerRun_vector [of ?o1 "[(''SECRET'', ''value'')]" runnerOk emptyWorld]
    by (auto simp: ea pa envFlags_def)
  have 2: "runDockerRun ?o2 [(''SECRET'', ''value'')] runnerOk emptyWorld =
      Inr (RunCommand runnerOk ''docker'' [''run'', ''-e'', ''SECRET=value'', ''-d'', ''--rm'']
        None emptyWorld)"
    using runDockerRun_vector [of ?o2 "[(''SECRET'', ''value'')]" runnerOk emptyWorld]
    by (auto simp: eb pb envFlags_def)
  show ?thesis
    unfolding 1 2 by (simp add: RunCommand_def runnerOk_def emptyWorld_def)
qed

text \<open>
  C2. The argument vector of \<^verbatim>\<open>runDockerRun\<close> is the subcommand and the caller's
  arguments with one block of \<^verbatim>\<open>-e\<close>, \<^verbatim>\<open>KEY=VALUE\<close> pairs put in; the block holds exactly
  the secrets whose key is not a key of the override set, so as a mapping it is the
  secret set restricted to the complement of the override keys. With the secrets
  \<^verbatim>\<open>API_KEY=v\<close>, \<^verbatim>\<open>OTHER=o\<close> (in either order) and the arguments
  \<^verbatim>\<open>-e API_KEY=user alpine\<close>, the vector is
  \<^verbatim>\<open>run -e API_KEY=user -e OTHER=o alpine\<close>: it holds \<^verbatim>\<open>-e API_KEY=user\<close> once,
  \<^verbatim>\<open>-e OTHER=o\<close> once and \<^verbatim>\<open>-e API_KEY=v\<close> not at all.
\<close>

theorem runDockerRun_precedence:
  "(\<exists>overrides injected pre post.
      extractUserEnvVars (DockerArgs opts) = Inr overrides
    \<and> runDockerRun opts secrets deps w =
        Inr (RunCommand deps ''docker'' (pre @ envFlags injected @ post) None w)
    \<and> pre @ post = DockerCommand opts # DockerArgs opts
    \<and> injected = filter (\<lambda>(k, v). k \<notin> dom overrides) secrets
    \<and> map_of injected = map_of secrets |` (- dom overrides))
   \<and> extractUserEnvVars [''-e'', ''API_KEY=user'', ''alpine''] = Inr [''API_KEY'' \<mapsto> ''user'']
   \<and> runDockerRun (opts\<lparr>DockerCommand := ''run'', DockerArgs := [''-e'', ''API_KEY=user'', ''alpine'']\<rparr>)
        [(''API_KEY'', ''v''), (''OTHER'', ''o'')] deps w =
      Inr (RunCommand deps ''docker''
             [''run'', ''-e'', ''API_KEY=user'', ''-e'', ''OTHER=o'', ''alpine''] None w)
   \<and> runDockerRun (opts\<lparr>DockerCommand := ''run'', DockerArgs := [''-e'', ''API_KEY=user'', ''alpine'']\<rparr>)
        [(''OTHER'', ''o''), (''API_KEY'', ''v'')] deps w =
      Inr (RunCommand deps ''docker''
             [''run'', ''-e'', ''API_KEY=user'', ''-e'', ''OTHER=o'', ''alpine''] None w)
   \<and> countEnvFlag ''API_KEY=user''
        [''run'', ''-e'', ''API_KEY=user'', ''-e'', ''OTHER=o'', ''alpine''] = 1
   \<and> countEnvFlag ''OTHER=o''
        [''run'', ''-e'', ''API_KEY=user'', ''-e'', ''OTHER=o'', ''alpine''] = 1
   \<and> countEnvFlag ''API_KEY=v''
        [''run'', ''-e'', ''API_KEY=user'', ''-e'', ''OTHER=o'', ''alpine''] = 0"
proof -
  obtain overrides where o: "extractUserEnvVars (DockerArgs opts) = Inr overrides"
    using extract_total [of "DockerArgs opts" 0 Map.empty] by (auto simp: extractUserEnvVars_def)
  obtain imagePos where p: "findImagePosition (DockerArgs opts) = Inr imagePos"
    and r: "imagePos = - 1 \<or> (0 \<le> imagePos \<and> imagePos < int (length (DockerArgs opts)))"
    using loop_range [of "DockerArgs opts" 0] by (auto simp: findImagePosition_def)
  let ?inj = "filter (\<lambda>(k, v). k \<notin> dom overrides) secrets"
  let ?pre = "DockerCommand opts # (if 0 \<le> imagePos then take (nat imagePos) (DockerArgs opts) else [])"
  let ?post = "if 0 \<le> imagePos then drop (nat imagePos) (DockerArgs opts) else DockerArgs opts"
  have run: "runDockerRun opts secrets deps w =
      Inr (RunCommand deps ''docker'' (?pre @ envFlags ?inj @ ?post) None w)"
    using r by (auto simp: runDockerRun_def o p sliceTo_def sliceFrom_def
        injectSecrets_flags Let_def)
  have split: "?pre @ ?post = DockerCommand opts # DockerArgs opts"
    by simp
  have general: "\<exists>overrides injected pre post.
      extractUserEnvVars (DockerArgs opts) = Inr overrides
    \<and> runDockerRun opts secrets deps w =
        Inr (RunCommand deps ''docker'' (pre @ envFlags injected @ post) None w)
    \<and> pre @ post = DockerCommand opts # DockerArgs opts
    \<and> injected = filter (\<lambda>(k, v). k \<notin> dom overrides) secrets
    \<and> map_of injected = map_of secrets |` (- dom overrides)"
    using o run split map_of_filter_keys [of "dom overrides" secrets] by blast
  let ?a = "[''-e'', ''API_KEY=user'', ''alpine'']"
  have e: "extractUserEnvVars ?a = Inr [''API_KEY'' \<mapsto> ''user'']"
    by (simp add: extract_evals HasPrefix_def Contains_single)
  have i: "findImagePosition ?a = Inr 2"
    by (simp add: locate_evals token_evals)
  have ex: "runDockerRun (opts\<lparr>DockerCommand := ''run'', DockerArgs := ?a\<rparr>) s deps w =
      Inr (RunCommand deps ''docker''
             [''run'', ''-e'', ''API_KEY=user'', ''-e'', ''OTHER=o'', ''alpine''] None w)"
    if "s = [(''API_KEY'', ''v''), (''OTHER'', ''o'')] \<or> s = [(''OTHER'', ''o''), (''API_KEY'', ''v'')]"
    for s
    using that by (auto simp: runDockerRun_def e i sliceTo_def sliceFrom_def)
  have c: "countEnvFlag ''API_KEY=user''
        [''run'', ''-e'', ''API_KEY=user'', ''-e'', ''OTHER=o'', ''alpine''] = 1"
    "countEnvFlag ''OTHER=o''
        [''run'', ''-e'', ''API_KEY=user'', ''-e'', ''OTHER=o'', ''alpine''] = 1"
    "countEnvFlag ''API_KEY=v''
        [''run'', ''-e'', ''API_KEY=user'', ''-e'', ''OTHER=o'', ''alpine''] = 0"
    by simp_all
  show ?thesis
    using general e ex c by blast
qed

theorem runDockerRun_precedence_witness:
  "runDockerRun
     \<lparr>EnvName = ''development'', EnvFlagSet = True, DockerCommand = ''run'',
      DockerArgs = [''-e'', ''API_KEY=user'', ''alpine'']\<rparr>
     [(''API_KEY'', ''v''), (''OTHER'', ''o'')] runnerOk emptyWorld =
   Inr (None,
        \<lparr>files = Map.empty,
         started =
           [\<lparr>command = ''docker'',
             argv = [''run'', ''-e'', ''API_KEY=user'', ''-e'', ''OTHER=o'', ''alpine''],
             environ = None, filesAtStart = Map.empty\<rparr>]\<rparr>)"
  using runDockerRun_precedence
    [where opts = "\<lparr>EnvName = ''development'', EnvFlagSet = True, DockerCommand = ''run'',
          DockerArgs = []\<rparr>" and secrets = "[]" and deps = runnerOk and w = emptyWorld,
      THEN conjunct2, THEN conjunct2, THEN conjunct1]
  by (simp add: RunCommand_def runnerOk_def emptyWorld_def)

section \<open>The builder of \<^verbatim>\<open>docker compose\<close>\<close>

lemma compose_not_run:
  "DockerArgs opts = [] \<or> hd (DockerArgs opts) \<noteq> ''run'' \<Longrightarrow>
   (if length (DockerArgs opts) > 0
    then (case index (DockerArgs opts) 0 of Inl p \<Rightarrow> Inl p | Inr a \<Rightarrow> Inr (a = ''run''))
    else Inr False) = Inr False"
  by (cases "DockerArgs opts") (auto simp: index_def)

text \<open>
  C6. When the first token after \<^verbatim>\<open>compose\<close> is \<^verbatim>\<open>run\<close>, \<^verbatim>\<open>runDockerCompose\<close> calls the
  runner once with \<^verbatim>\<open>compose\<close>, \<^verbatim>\<open>run\<close>, a \<^verbatim>\<open>-e\<close>, \<^verbatim>\<open>KEY=VALUE\<close> pair for every secret
  (none is left out, whatever \<^verbatim>\<open>-e\<close> the caller passed), then the caller's tokens after
  \<^verbatim>\<open>run\<close>, and a \<^verbatim>\<open>nil\<close> environment map. The files of the world stay as they were and
  the outcome does not depend on the file system, so no temporary file is created.
\<close>

theorem runDockerCompose_run:
  "runDockerCompose (opts\<lparr>DockerArgs := ''run'' # rest\<rparr>) secrets deps os w =
   Inr (CmdRunner deps ''docker'' ([''compose'', ''run''] @ envFlags secrets @ rest) None,
        w\<lparr>started := started w @
           [\<lparr>command = ''docker'',
             argv = [''compose'', ''run''] @ envFlags secrets @ rest,
             environ = None,
             filesAtStart = files w\<rparr>]\<rparr>)"
  by (cases rest) (simp_all add: runDockerCompose_def index_def sliceFrom_def injectAll_flags
      RunCommand_def Let_def)

theorem runDockerCompose_run_witness:
  "runDockerCompose
     \<lparr>EnvName = ''development'', EnvFlagSet = True, DockerCommand = ''compose'',
      DockerArgs = [''run'', ''-e'', ''API_KEY=user'', ''web'']\<rparr>
     [(''API_KEY'', ''v''), (''OTHER'', ''o'')] runnerOk noTempDir emptyWorld =
   Inr (None,
        \<lparr>files = Map.empty,
         started =
           [\<lparr>command = ''docker'',
             argv = [''compose'', ''run'', ''-e'', ''API_KEY=v'', ''-e'', ''OTHER=o'',
                     ''-e'', ''API_KEY=user'', ''web''],
             environ = None, filesAtStart = Map.empty\<rparr>]\<rparr>)"
  using runDockerCompose_run
    [where opts = "\<lparr>EnvName = ''development'', EnvFlagSet = True, DockerCommand = ''compose'',
          DockerArgs = []\<rparr>" and rest = "[''-e'', ''API_KEY=user'', ''web'']"
        and secrets = "[(''API_KEY'', ''v''), (''OTHER'', ''o'')]" and deps = runnerOk
        and os = noTempDir and w = emptyWorld]
  by (simp add: envFlags_def runnerOk_def emptyWorld_def)

text \<open>
  C7. When the first token after \<^verbatim>\<open>compose\<close> is not \<^verbatim>\<open>run\<close> (or there is none): with at
  least one secret, a temporary file created under \<open>name\<close> and writes that succeed, the
  runner is called with \<^verbatim>\<open>compose\<close>, \<^verbatim>\<open>--env-file\<close>, \<open>name\<close> and then the caller's
  arguments, and when the process starts the file \<open>name\<close> holds one line
  \<^verbatim>\<open>KEY=VALUE\<close> per secret, each ended by a newline, keys and values copied as they
  are; the file is removed afterwards. With no secret the runner is called with
  \<^verbatim>\<open>compose\<close> and the caller's arguments, and the files stay as they were.
\<close>

theorem runDockerCompose_env_file:
  assumes "DockerArgs opts = [] \<or> hd (DockerArgs opts) \<noteq> ''run''"
  shows
    "(secrets \<noteq> [] \<and> CreateTemp os = Inr name \<and> (\<forall>c d. Write os c d = (c @ d, None)) \<longrightarrow>
        runDockerCompose opts secrets deps os w =
        Inr (CmdRunner deps ''docker'' ([''compose'', ''--env-file'', name] @ DockerArgs opts) None,
             w\<lparr>started := started w @
                [\<lparr>command = ''docker'',
                  argv = [''compose'', ''--env-file'', name] @ DockerArgs opts,
                  environ = None,
                  filesAtStart = (files w)(name \<mapsto> envLines secrets)\<rparr>],
               files := (files w)(name := None)\<rparr>))
     \<and> (secrets = [] \<longrightarrow>
        runDockerCompose opts secrets deps os w =
        Inr (CmdRunner deps ''docker'' (''compose'' # DockerArgs opts) None,
             w\<lparr>started := started w @
                [\<lparr>command = ''docker'',
                  argv = ''compose'' # DockerArgs opts,
                  environ = None,
                  filesAtStart = files w\<rparr>]\<rparr>))"
  unfolding runDockerCompose_def compose_not_run [OF assms]
  by (auto simp: RunCommand_def writeSecrets_lines Let_def)

theorem runDockerCompose_env_file_witness:
  "runDockerCompose
     \<lparr>EnvName = ''development'', EnvFlagSet = True, DockerCommand = ''compose'',
      DockerArgs = [''up'', ''-d'']\<rparr>
     [(''A'', ''1'')] runnerOk (diskOk ''/tmp/keyway-env-1.env'') emptyWorld =
   Inr (None,
        \<lparr>files = Map.empty,
         started =
           [\<lparr>command = ''docker'',
             argv = [''compose'', ''--env-file'', ''/tmp/keyway-env-1.env'', ''up'', ''-d''],
             environ = None,
             filesAtStart = [''/tmp/keyway-env-1.env'' \<mapsto> ''A=1'' @ [CHR 0x0A]]\<rparr>]\<rparr>)
   \<and> runDockerCompose
     \<lparr>EnvName = ''development'', EnvFlagSet = True, DockerCommand = ''compose'',
      DockerArgs = [''up'', ''-d'']\<rparr>
     [] runnerOk noTempDir emptyWorld =
   Inr (None,
        \<lparr>files = Map.empty,
         started =
           [\<lparr>command = ''docker'',
             argv = [''compose'', ''up'', ''-d''],
             environ = None, filesAtStart = Map.empty\<rparr>]\<rparr>)"
proof -
  let ?o = "\<lparr>EnvName = ''development'', EnvFlagSet = True, DockerCommand = ''compose'',
      DockerArgs = [''up'', ''-d'']\<rparr>"
  have h: "DockerArgs ?o = [] \<or> hd (DockerArgs ?o) \<noteq> ''run''"
    by simp
  note A = runDockerCompose_env_file
    [OF h, where secrets = "[(''A'', ''1'')]" and os = "diskOk ''/tmp/keyway-env-1.env''"
       and name = "''/tmp/keyway-env-1.env''" and deps = runnerOk and w = emptyWorld,
     THEN conjunct1]
  note B = runDockerCompose_env_file
    [OF h, where secrets = "[]" and os = noTempDir and deps = runnerOk and w = emptyWorld,
     THEN conjunct2]
  have 1: "runDockerCompose ?o [(''A'', ''1'')] runnerOk (diskOk ''/tmp/keyway-env-1.env'') emptyWorld =
      Inr (None,
        \<lparr>files = Map.empty,
         started =
           [\<lparr>command = ''docker'',
             argv = [''compose'', ''--env-file'', ''/tmp/keyway-env-1.env'', ''up'', ''-d''],
             environ = None,
             filesAtStart = [''/tmp/keyway-env-1.env'' \<mapsto> ''A=1'' @ [CHR 0x0A]]\<rparr>]\<rparr>)"
    using A by (simp add: diskOk_def runnerOk_def emptyWorld_def envLines_def)
  have 2: "runDockerCompose ?o [] runnerOk noTempDir emptyWorld =
      Inr (None,
        \<lparr>files = Map.empty,
         started =
           [\<lparr>command = ''docker'',
             argv = [''compose'', ''up'', ''-d''],
             environ = None, filesAtStart = Map.empty\<rparr>]\<rparr>)"
    using B by (simp add: runnerOk_def emptyWorld_def)
  show ?thesis
    using 1 2 by simp
qed

text \<open>
  C8. In the env-file mode (first token not \<^verbatim>\<open>run\<close>, at least one secret): when
  \<^verbatim>\<open>os.CreateTemp\<close> fails, \<^verbatim>\<open>runDockerCompose\<close> returns that error wrapped with the
  message \<^verbatim>\<open>failed to create temp env file: \<close>, starts no process and leaves the world
  as it was. When the file is created, the runner is called whatever the writes
  report: the env file holds what the writes left in it and the error returned is the
  runner's. Only a failure to create the file aborts the operation.
\<close>

theorem runDockerCompose_failure:
  assumes "DockerArgs opts = [] \<or> hd (DockerArgs opts) \<noteq> ''run''" and "secrets \<noteq> []"
  shows
    "(CreateTemp os = Inl err \<longrightarrow>
        runDockerCompose opts secrets deps os w =
          Inr (Some (Wrapped ''failed to create temp env file: '' err), w)
      \<and> Unwrap (Wrapped ''failed to create temp env file: '' err) = Some err
      \<and> Error (Wrapped ''failed to create temp env file: '' err) =
          ''failed to create temp env file: '' @ Error err)
     \<and> (CreateTemp os = Inr name \<longrightarrow>
        runDockerCompose opts secrets deps os w =
        Inr (CmdRunner deps ''docker'' ([''compose'', ''--env-file'', name] @ DockerArgs opts) None,
             w\<lparr>started := started w @
                [\<lparr>command = ''docker'',
                  argv = [''compose'', ''--env-file'', name] @ DockerArgs opts,
                  environ = None,
                  filesAtStart = (files w)(name \<mapsto> writeSecrets os secrets '''')\<rparr>],
               files := (files w)(name := None)\<rparr>))"
  unfolding runDockerCompose_def compose_not_run [OF assms(1)]
  using assms(2) by (auto simp: RunCommand_def Let_def)

theorem runDockerCompose_failure_witness:
  "runDockerCompose
     \<lparr>EnvName = ''development'', EnvFlagSet = True, DockerCommand = ''compose'',
      DockerArgs = [''up'']\<rparr>
     [(''A'', ''1'')] runnerOk noTempDir emptyWorld =
   Inr (Some (Wrapped ''failed to create temp env file: '' (Failure ''permission denied'')),
        \<lparr>files = Map.empty, started = []\<rparr>)
   \<and> Error (Wrapped ''failed to create temp env file: '' (Failure ''permission denied'')) =
       ''failed to create temp env file: permission denied''
   \<and> runDockerCompose
     \<lparr>EnvName = ''development'', EnvFlagSet = True, DockerCommand = ''compose'',
      DockerArgs = [''up'']\<rparr>
     [(''A'', ''1'')] runnerOk (diskFull ''/tmp/keyway-env-1.env'') emptyWorld =
   Inr (None,
        \<lparr>files = Map.empty,
         started =
           [\<lparr>command = ''docker'',
             argv = [''compose'', ''--env-file'', ''/tmp/keyway-env-1.env'', ''up''],
             environ = None,
             filesAtStart = [''/tmp/keyway-env-1.env'' \<mapsto> '''']\<rparr>]\<rparr>)"
proof -
  let ?o = "\<lparr>EnvName = ''development'', EnvFlagSet = True, DockerCommand = ''compose'',
      DockerArgs = [''up'']\<rparr>"
  have h: "DockerArgs ?o = [] \<or> hd (DockerArgs ?o) \<noteq> ''run''"
    by simp
  have s: "[(''A'', ''1'')] \<noteq> ([] :: secretSet)"
    by simp
  note A = runDockerCompose_failure
    [OF h s, where os = noTempDir and err = "Failure ''permission denied''" and deps = runnerOk
       and w = emptyWorld, THEN conjunct1]
  note B = runDockerCompose_failure
    [OF h s, where os = "diskFull ''/tmp/keyway-env-1.env''"
       and name = "''/tmp/keyway-env-1.env''" and deps = runnerOk and w = emptyWorld,
     THEN conjunct2]
  have 1: "runDockerCompose ?o [(''A'', ''1'')] runnerOk noTempDir emptyWorld =
      Inr (Some (Wrapped ''failed to create temp env file: '' (Failure ''permission denied'')),
        \<lparr>files = Map.empty, started = []\<rparr>)"
    using A by (simp add: noTempDir_def emptyWorld_def)
  have 2: "Error (Wrapped ''failed to create temp env file: '' (Failure ''permission denied'')) =
       ''failed to create temp env file: permission denied''"
    using A by (simp add: noTempDir_def)
  have 3: "runDockerCompose ?o [(''A'', ''1'')] runnerOk (diskFull ''/tmp/keyway-env-1.env'') emptyWorld =
      Inr (None,
        \<lparr>files = Map.empty,
         started =
           [\<lparr>command = ''docker'',
             argv = [''compose'', ''--env-file'', ''/tmp/keyway-env-1.env'', ''up''],
             environ = None,
             filesAtStart = [''/tmp/keyway-env-1.env'' \<mapsto> '''']\<rparr>]\<rparr>)"
    using B by (simp add: diskFull_def runnerOk_def emptyWorld_def)
  show ?thesis
    using 1 2 3 by simp
qed

text \<open>
  A write that fails goes unnoticed: on a file system where the write of the line
  \<^verbatim>\<open>A=1\<close> reports an error and stores nothing, \<^verbatim>\<open>docker compose up\<close> is started all the
  same, with an empty env file, and the error returned is \<^verbatim>\<open>nil\<close>.
\<close>

theorem runDockerCompose_write_failure_unnoticed:
  "snd (Write (diskFull ''/tmp/keyway-env-1.env'') '''' (''A=1'' @ [CHR 0x0A])) =
     Some (Failure ''no space left on device'')
   \<and> runDockerCompose
     \<lparr>EnvName = ''development'', EnvFlagSet = True, DockerCommand = ''compose'',
      DockerArgs = [''up'']\<rparr>
     [(''A'', ''1'')] runnerOk (diskFull ''/tmp/keyway-env-1.env'') emptyWorld =
   Inr (None,
        \<lparr>files = Map.empty,
         started =
           [\<lparr>command = ''docker'',
             argv = [''compose'', ''--env-file'', ''/tmp/keyway-env-1.env'', ''up''],
             environ = None,
             filesAtStart = [''/tmp/keyway-env-1.env'' \<mapsto> '''']\<rparr>]\<rparr>)"
  by (simp add: runDockerCompose_def index_def RunCommand_def diskFull_def runnerOk_def
      emptyWorld_def)

section \<open>Edge cases\<close>

lemma extract_last_flag:
  "t = ''-e'' \<or> t = ''--env'' \<Longrightarrow>
   extractUserEnvVars_loop (pre @ [t]) (length pre) result = Inr result"
  by (rule extract_space_last) auto

text \<open>
  C10. With no token after \<^verbatim>\<open>compose\<close> and at least one secret, \<^verbatim>\<open>runDockerCompose\<close>
  takes the env-file branch: the runner is called with \<^verbatim>\<open>compose\<close>, \<^verbatim>\<open>--env-file\<close>,
  \<open>name\<close>, and the file holds a line for every secret. An environment flag with an empty
  payload adds no entry to the override set: the tokens \<^verbatim>\<open>-e=\<close> and \<^verbatim>\<open>--env=\<close>, and
  \<^verbatim>\<open>-e\<close> or \<^verbatim>\<open>--env\<close> followed by the empty token, leave the result what it is for the
  rest of the sequence; a last token \<^verbatim>\<open>-e\<close> or \<^verbatim>\<open>--env\<close> reached by the cursor leaves
  the mapping as it is; and each of these alone gives the empty mapping, which has no
  entry for the empty key.
\<close>

theorem edge_cases:
  "(secrets \<noteq> [] \<and> DockerArgs opts = [] \<and> CreateTemp os = Inr name
      \<and> (\<forall>c d. Write os c d = (c @ d, None)) \<longrightarrow>
        runDockerCompose opts secrets deps os w =
        Inr (CmdRunner deps ''docker'' [''compose'', ''--env-file'', name] None,
             w\<lparr>started := started w @
                [\<lparr>command = ''docker'',
                  argv = [''compose'', ''--env-file'', name],
                  environ = None,
                  filesAtStart = (files w)(name \<mapsto> envLines secrets)\<rparr>],
               files := (files w)(name := None)\<rparr>))
   \<and> extractUserEnvVars (''-e='' # rest) = extractUserEnvVars rest
   \<and> extractUserEnvVars (''--env='' # rest) = extractUserEnvVars rest
   \<and> extractUserEnvVars (''-e'' # '''' # rest) = extractUserEnvVars rest
   \<and> extractUserEnvVars (''--env'' # '''' # rest) = extractUserEnvVars rest
   \<and> extractUserEnvVars_loop (pre @ [''-e'']) (length pre) result = Inr result
   \<and> extractUserEnvVars_loop (pre @ [''--env'']) (length pre) result = Inr result
   \<and> extractUserEnvVars [''-e=''] = Inr Map.empty
   \<and> extractUserEnvVars [''--env=''] = Inr Map.empty
   \<and> extractUserEnvVars [''-e''] = Inr Map.empty
   \<and> extractUserEnvVars [''--env''] = Inr Map.empty"
proof -
  have a: "runDockerCompose opts secrets deps os w =
        Inr (CmdRunner deps ''docker'' [''compose'', ''--env-file'', name] None,
             w\<lparr>started := started w @
                [\<lparr>command = ''docker'',
                  argv = [''compose'', ''--env-file'', name],
                  environ = None,
                  filesAtStart = (files w)(name \<mapsto> envLines secrets)\<rparr>],
               files := (files w)(name := None)\<rparr>)"
    if "secrets \<noteq> []" "DockerArgs opts = []" "CreateTemp os = Inr name"
      "\<forall>c d. Write os c d = (c @ d, None)"
    using that by (simp add: runDockerCompose_def RunCommand_def writeSecrets_lines Let_def)
  obtain m where m: "extractUserEnvVars rest = Inr m"
    using extractUserEnvVars_total by blast
  have b: "extractUserEnvVars (''-e='' # rest) = extractUserEnvVars rest"
    using extract_cons_short [OF m, of "''''"] by (simp add: envEntry_empty m)
  have c: "extractUserEnvVars (''--env='' # rest) = extractUserEnvVars rest"
    using extract_cons_long [OF m, of "''''"] by (simp add: envEntry_empty m)
  have d: "extractUserEnvVars (t # '''' # rest) = extractUserEnvVars rest"
    if "t = ''-e'' \<or> t = ''--env''" for t
    using extract_cons_space [OF that m, of "''''"] by (simp add: envEntry_empty m)
  have e: "extractUserEnvVars [t] = Inr Map.empty" if "t = ''-e'' \<or> t = ''--env''" for t
    using extract_last_flag [OF that, of "[]" Map.empty] by (simp add: extractUserEnvVars_def)
  have f: "extractUserEnvVars [''-e=''] = Inr Map.empty"
    "extractUserEnvVars [''--env=''] = Inr Map.empty"
    using extract_cons_short [OF extract_nil, of "''''"] extract_cons_long [OF extract_nil, of "''''"]
    by (simp_all add: envEntry_empty)
  show ?thesis
    using a b c d [of "''-e''"] d [of "''--env''"] e [of "''-e''"] e [of "''--env''"] f
      extract_last_flag [of "''-e''" pre result] extract_last_flag [of "''--env''" pre result]
    by simp
qed

theorem edge_cases_witness:
  "runDockerCompose
     \<lparr>EnvName = ''development'', EnvFlagSet = True, DockerCommand = ''compose'',
      DockerArgs = []\<rparr>
     [(''A'', ''1''), (''B'', ''2'')] runnerOk (diskOk ''/tmp/keyway-env-1.env'') emptyWorld =
   Inr (None,
        \<lparr>files = Map.empty,
         started =
           [\<lparr>command = ''docker'',
             argv = [''compose'', ''--env-file'', ''/tmp/keyway-env-1.env''],
             environ = None,
             filesAtStart =
               [''/tmp/keyway-env-1.env'' \<mapsto> ''A=1'' @ [CHR 0x0A] @ ''B=2'' @ [CHR 0x0A]]\<rparr>]\<rparr>)
   \<and> extractUserEnvVars [''-e='', ''-e'', ''K=1''] = Inr [''K'' \<mapsto> ''1'']
   \<and> extractUserEnvVars [''-p'', ''80'', ''-e''] = Inr Map.empty"
proof -
  let ?o = "\<lparr>EnvName = ''development'', EnvFlagSet = True, DockerCommand = ''compose'',
      DockerArgs = []\<rparr>"
  note E = edge_cases
    [where opts = ?o and secrets = "[(''A'', ''1''), (''B'', ''2'')]"
       and os = "diskOk ''/tmp/keyway-env-1.env''" and name = "''/tmp/keyway-env-1.env''"
       and deps = runnerOk and w = emptyWorld and rest = "[''-e'', ''K=1'']"
       and pre = "[''-p'', ''80'']" and result = Map.empty]
  have 1: "runDockerCompose ?o [(''A'', ''1''), (''B'', ''2'')] runnerOk
        (diskOk ''/tmp/keyway-env-1.env'') emptyWorld =
      Inr (None,
        \<lparr>files = Map.empty,
         started =
           [\<lparr>command = ''docker'',
             argv = [''compose'', ''--env-file'', ''/tmp/keyway-env-1.env''],
             environ = None,
             filesAtStart =
               [''/tmp/keyway-env-1.env'' \<mapsto> ''A=1'' @ [CHR 0x0A] @ ''B=2'' @ [CHR 0x0A]]\<rparr>]\<rparr>)"
    using E [THEN conjunct1] by (simp add: diskOk_def runnerOk_def emptyWorld_def envLines_def)
  have k: "extractUserEnvVars [''-e'', ''K=1''] = Inr [''K'' \<mapsto> ''1'']"
    by (simp add: extract_evals HasPrefix_def Contains_single)
  have 2: "extractUserEnvVars [''-e='', ''-e'', ''K=1''] = Inr [''K'' \<mapsto> ''1'']"
    using E [THEN conjunct2, THEN conjunct1] k by simp
  have s: "extractUserEnvVars [''-p'', ''80'', ''-e''] =
      extractUserEnvVars_loop ([''-p'', ''80''] @ [''-e'']) (length [''-p'', ''80'']) Map.empty"
    by (simp add: extract_evals HasPrefix_def eval_nat_numeral)
  have 3: "extractUserEnvVars [''-p'', ''80'', ''-e''] = Inr Map.empty"
    unfolding s
    using E [THEN conjunct2, THEN conjunct2, THEN conjunct2, THEN conjunct2, THEN conjunct2,
        THEN conjunct1]
    by simp
  show ?thesis
    using 1 2 3 by simp
qed

end
